theory Spec2Isabelle
  imports Complex_Main "HOL-Library.Log_Nat"
begin

section \<open>JavaScript numbers and their text form\<close>

text \<open>
  The calculation engine of \<^verbatim>\<open>putevoy/js/app.js\<close> works on JavaScript numbers that it
  reads from text (form inputs and table cells) and writes back as text. A number is
  modelled as \<open>jsnum\<close>: \<open>NaN\<close>, the two infinities, or a finite binary64 value, given
  by the rational it denotes. Reading a decimal literal, adding, subtracting and dividing
  give the exact result rounded to binary64 (\<open>toBinary64\<close>), as the language defines
  them. The sign of zero is not modelled. A string is the list of the bytes of its
  UTF-8 form.
\<close>

datatype jsnum = NaN | Fin rat | PInf | NInf

fun Number_isFinite :: "jsnum \<Rightarrow> bool" where
  "Number_isFinite (Fin _) = True"
| "Number_isFinite _ = False"

fun Number_isNaN :: "jsnum \<Rightarrow> bool" where
  "Number_isNaN NaN = True"
| "Number_isNaN _ = False"

subsection \<open>Rounding to binary64\<close>

text \<open>
  A binary64 number is \<open>m * 2^e\<close> with an integer \<open>m\<close> of at most 53 bits and
  \<open>e\<close> from \<open>-1074\<close> on. \<open>binary64 r\<close> is the number of this form nearest to \<open>r\<close>,
  the one with the even \<open>m\<close> of two equally near: \<open>floorLog2 a\<close> is the position of
  the leading bit of \<open>a > 0\<close>, found from the bit lengths of its numerator and
  denominator, and \<open>exponent64 a\<close> the exponent \<open>e\<close> that leaves 53 bits, or \<open>-1074\<close>
  for a subnormal number. From \<open>2^1024 - 2^970\<close> on the nearest number is an infinity.
\<close>

definition floorLog2 :: "rat \<Rightarrow> int" where
  "floorLog2 a =
     (let d = bitlen (fst (quotient_of a)) - bitlen (snd (quotient_of a))
      in if 2 powi d \<le> a then d else d - 1)"

definition roundHalfEven :: "rat \<Rightarrow> int" where
  "roundHalfEven x =
     (let f = \<lfloor>x\<rfloor>; d = x - of_int f
      in if d < 1 / 2 then f else if 1 / 2 < d then f + 1 else if even f then f else f + 1)"

definition exponent64 :: "rat \<Rightarrow> int" where
  "exponent64 a = max (floorLog2 a - 52) (- 1074)"

definition binary64 :: "rat \<Rightarrow> rat" where
  "binary64 r =
     (if r = 0 then 0
      else
        let a = \<bar>r\<bar>;
            e = exponent64 a;
            m = roundHalfEven (a / 2 powi e)
        in sgn r * (of_int m * 2 powi e))"

definition toBinary64 :: "rat \<Rightarrow> jsnum" where
  "toBinary64 r =
     (if of_int (2 ^ 1024 - 2 ^ 970) \<le> \<bar>r\<bar> then (if 0 < r then PInf else NInf)
      else Fin (binary64 r))"

text \<open>A decimal literal of the source text, such as \<open>1.4\<close> or \<open>0.01\<close>.\<close>

definition literal :: "rat \<Rightarrow> jsnum" where
  "literal r = toBinary64 r"

text \<open>
  The operators the code applies to numbers: \<open>-\<close>, \<open>/\<close>, \<open>+\<close>, \<open>Math.abs\<close>, \<open><\<close>, \<open>>\<close>,
  \<open><=\<close>. A sum with zero is the other number; any other sum, and a quotient, is the
  exact result rounded.
\<close>

fun js_neg :: "jsnum \<Rightarrow> jsnum" where
  "js_neg NaN = NaN"
| "js_neg (Fin a) = Fin (- a)"
| "js_neg PInf = NInf"
| "js_neg NInf = PInf"

fun js_add :: "jsnum \<Rightarrow> jsnum \<Rightarrow> jsnum" where
  "js_add (Fin a) (Fin b) =
     (if b = 0 then Fin a else if a = 0 then Fin b else toBinary64 (a + b))"
| "js_add NaN _ = NaN"
| "js_add _ NaN = NaN"
| "js_add PInf NInf = NaN"
| "js_add NInf PInf = NaN"
| "js_add PInf _ = PInf"
| "js_add NInf _ = NInf"
| "js_add (Fin _) b = b"

definition js_sub :: "jsnum \<Rightarrow> jsnum \<Rightarrow> jsnum" where
  "js_sub a b = js_add a (js_neg b)"

fun Math_abs :: "jsnum \<Rightarrow> jsnum" where
  "Math_abs NaN = NaN"
| "Math_abs (Fin a) = Fin \<bar>a\<bar>"
| "Math_abs PInf = PInf"
| "Math_abs NInf = PInf"

fun js_div :: "jsnum \<Rightarrow> jsnum \<Rightarrow> jsnum" where
  "js_div (Fin a) (Fin b) =
     (if b \<noteq> 0 then toBinary64 (a / b)
      else if a = 0 then NaN else if 0 < a then PInf else NInf)"
| "js_div NaN _ = NaN"
| "js_div _ NaN = NaN"
| "js_div (Fin _) _ = Fin 0"
| "js_div PInf (Fin b) = (if 0 \<le> b then PInf else NInf)"
| "js_div NInf (Fin b) = (if 0 \<le> b then NInf else PInf)"
| "js_div _ _ = NaN"

fun js_lt :: "jsnum \<Rightarrow> jsnum \<Rightarrow> bool" where
  "js_lt NaN _ = False"
| "js_lt _ NaN = False"
| "js_lt (Fin a) (Fin b) = (a < b)"
| "js_lt _ NInf = False"
| "js_lt PInf _ = False"
| "js_lt _ _ = True"

definition js_gt :: "jsnum \<Rightarrow> jsnum \<Rightarrow> bool" where
  "js_gt a b = js_lt b a"

definition js_le :: "jsnum \<Rightarrow> jsnum \<Rightarrow> bool" where
  "js_le a b = (\<not> Number_isNaN a \<and> \<not> Number_isNaN b \<and> \<not> js_lt b a)"

subsection \<open>String to number\<close>

text \<open>
  \<open>Number(s)\<close> on a string follows the StringNumericLiteral grammar of the language:
  white space is trimmed, the empty string is \<open>0\<close>, then either a hexadecimal, octal or
  binary integer literal without sign, or a signed decimal literal (\<open>Infinity\<close>, digits
  with an optional fraction and an optional exponent). Anything else is \<open>NaN\<close>.
  The value of a literal is its exact decimal value rounded to binary64.
\<close>

definition isDigit :: "char \<Rightarrow> bool" where
  "isDigit c = (c \<in> set ''0123456789'')"

definition digitVal :: "char \<Rightarrow> nat" where
  "digitVal c = of_char c - 48"

definition digitsVal :: "string \<Rightarrow> nat" where
  "digitsVal ds = foldl (\<lambda>n c. 10 * n + digitVal c) 0 ds"

text \<open>
  The white space that \<open>Number\<close> trims: TAB, LF, VT, FF, CR, space, U+00A0, U+1680,
  U+2000 to U+200A, U+2028, U+2029, U+202F, U+205F, U+3000 and U+FEFF, each as its UTF-8
  bytes. \<open>whiteSpaceLength s\<close> is the number of bytes of the white space character
  that \<open>s\<close> starts with, \<open>0\<close> if it starts with none.
\<close>

definition whiteSpaceChars :: "string list" where
  "whiteSpaceChars =
     [[CHR 0x09], [CHR 0x0A], [CHR 0x0B], [CHR 0x0C], [CHR 0x0D], [CHR 0x20],
      [CHR 0xC2, CHR 0xA0], [CHR 0xE1, CHR 0x9A, CHR 0x80],
      [CHR 0xE2, CHR 0x80, CHR 0x80], [CHR 0xE2, CHR 0x80, CHR 0x81],
      [CHR 0xE2, CHR 0x80, CHR 0x82], [CHR 0xE2, CHR 0x80, CHR 0x83],
      [CHR 0xE2, CHR 0x80, CHR 0x84], [CHR 0xE2, CHR 0x80, CHR 0x85],
      [CHR 0xE2, CHR 0x80, CHR 0x86], [CHR 0xE2, CHR 0x80, CHR 0x87],
      [CHR 0xE2, CHR 0x80, CHR 0x88], [CHR 0xE2, CHR 0x80, CHR 0x89],
      [CHR 0xE2, CHR 0x80, CHR 0x8A], [CHR 0xE2, CHR 0x80, CHR 0xA8],
      [CHR 0xE2, CHR 0x80, CHR 0xA9], [CHR 0xE2, CHR 0x80, CHR 0xAF],
      [CHR 0xE2, CHR 0x81, CHR 0x9F], [CHR 0xE3, CHR 0x80, CHR 0x80],
      [CHR 0xEF, CHR 0xBB, CHR 0xBF]]"

definition whiteSpaceLength :: "string \<Rightarrow> nat" where
  "whiteSpaceLength s =
     (case find (\<lambda>w. take (length w) s = w) whiteSpaceChars of
        Some w \<Rightarrow> length w
      | None \<Rightarrow> 0)"

fun trimStart :: "string \<Rightarrow> string" where
  "trimStart [] = []"
| "trimStart (c # s) =
     (case whiteSpaceLength (c # s) of
        0 \<Rightarrow> c # s
      | Suc n \<Rightarrow> trimStart (drop n s))"

fun trimEnd :: "string \<Rightarrow> string" where
  "trimEnd [] = []"
| "trimEnd (c # s) = (if trimStart (c # s) = [] then [] else c # trimEnd s)"

definition trim :: "string \<Rightarrow> string" where
  "trim s = trimEnd (trimStart s)"

definition radixDigit :: "nat \<Rightarrow> char \<Rightarrow> nat option" where
  "radixDigit radix c =
     (let v = (if isDigit c then Some (digitVal c)
               else if c \<in> set ''abcdef'' then Some (of_char c - 87)
               else if c \<in> set ''ABCDEF'' then Some (of_char c - 55)
               else None)
      in case v of None \<Rightarrow> None | Some d \<Rightarrow> if d < radix then Some d else None)"

fun radixDigits :: "nat \<Rightarrow> nat \<Rightarrow> string \<Rightarrow> nat option" where
  "radixDigits radix acc [] = Some acc"
| "radixDigits radix acc (c # cs) =
     (case radixDigit radix c of None \<Rightarrow> None
      | Some d \<Rightarrow> radixDigits radix (radix * acc + d) cs)"

definition NonDecimalIntegerLiteral :: "string \<Rightarrow> nat option" where
  "NonDecimalIntegerLiteral s =
     (case s of
        z # p # d # ds \<Rightarrow>
          (if z \<noteq> CHR ''0'' then None
           else if p = CHR ''x'' \<or> p = CHR ''X'' then radixDigits 16 0 (d # ds)
           else if p = CHR ''o'' \<or> p = CHR ''O'' then radixDigits 8 0 (d # ds)
           else if p = CHR ''b'' \<or> p = CHR ''B'' then radixDigits 2 0 (d # ds)
           else None)
      | _ \<Rightarrow> None)"

definition DecimalDigits :: "string \<Rightarrow> nat option" where
  "DecimalDigits ds = (if ds \<noteq> [] \<and> list_all isDigit ds then Some (digitsVal ds) else None)"

definition SignedInteger :: "string \<Rightarrow> int option" where
  "SignedInteger s =
     (case s of
        [] \<Rightarrow> None
      | c # ds \<Rightarrow>
          (if c = CHR ''+'' then map_option int (DecimalDigits ds)
           else if c = CHR ''-'' then map_option (\<lambda>n. - int n) (DecimalDigits ds)
           else map_option int (DecimalDigits s)))"

definition ExponentPart :: "string \<Rightarrow> int option" where
  "ExponentPart s =
     (case s of
        [] \<Rightarrow> Some 0
      | c # r \<Rightarrow> if c = CHR ''e'' \<or> c = CHR ''E'' then SignedInteger r else None)"

definition scale10 :: "rat \<Rightarrow> int \<Rightarrow> rat" where
  "scale10 m e = (if 0 \<le> e then m * 10 ^ nat e else m / 10 ^ nat (- e))"

definition StrUnsignedDecimalLiteral :: "string \<Rightarrow> jsnum" where
  "StrUnsignedDecimalLiteral s =
     (if s = ''Infinity'' then PInf
      else
        let ip = takeWhile isDigit s;
            r1 = dropWhile isDigit s;
            fp = (case r1 of [] \<Rightarrow> [] | c # r \<Rightarrow> if c = CHR ''.'' then takeWhile isDigit r else []);
            r2 = (case r1 of [] \<Rightarrow> [] | c # r \<Rightarrow> if c = CHR ''.'' then dropWhile isDigit r else r1)
        in if ip = [] \<and> fp = [] then NaN
           else case ExponentPart r2 of
                  None \<Rightarrow> NaN
                | Some e \<Rightarrow>
                    toBinary64
                      (scale10 (of_nat (digitsVal ip) + of_nat (digitsVal fp) / 10 ^ length fp) e))"

definition StrDecimalLiteral :: "string \<Rightarrow> jsnum" where
  "StrDecimalLiteral s =
     (case s of
        [] \<Rightarrow> NaN
      | c # r \<Rightarrow>
          (if c = CHR ''+'' then StrUnsignedDecimalLiteral r
           else if c = CHR ''-'' then js_neg (StrUnsignedDecimalLiteral r)
           else StrUnsignedDecimalLiteral s))"

definition StringToNumber :: "string \<Rightarrow> jsnum" where
  "StringToNumber s =
     (let t = trim s
      in if t = [] then Fin 0
         else case NonDecimalIntegerLiteral t of
                Some n \<Rightarrow> toBinary64 (of_nat n)
              | None \<Rightarrow> StrDecimalLiteral t)"

subsection \<open>Number to string with a fixed number of decimals\<close>

text \<open>
  \<open>x.toFixed(f)\<close>: the sign, then the integer \<open>n\<close> nearest to \<open>|x| * 10^f\<close> (the larger
  one of two equally near) written in decimal and padded with zeros to at least \<open>f + 1\<close>
  digits, with a point before the last \<open>f\<close> digits. From \<open>10^21\<close> on, \<open>toFixed\<close> hands
  over to the general number-to-string conversion, which prints the shortest digits that
  identify the binary64 value; this conversion lies outside the rational model and is the
  parameter \<open>numToString\<close> of every function that formats a number.
\<close>

definition digitChar :: "nat \<Rightarrow> char" where
  "digitChar d = ''0123456789'' ! d"

fun digits :: "nat \<Rightarrow> string" where
  "digits n = (if n < 10 then [digitChar n] else digits (n div 10) @ [digitChar (n mod 10)])"

declare digits.simps [simp del]

definition toFixed :: "(rat \<Rightarrow> string) \<Rightarrow> jsnum \<Rightarrow> nat \<Rightarrow> string" where
  "toFixed numToString x f =
     (case x of
        NaN \<Rightarrow> ''NaN''
      | PInf \<Rightarrow> ''Infinity''
      | NInf \<Rightarrow> ''-Infinity''
      | Fin r \<Rightarrow>
          (let s = (if r < 0 then ''-'' else '''');
               a = \<bar>r\<bar>;
               m = (if 10 ^ 21 \<le> a then numToString a
                    else
                      let n = nat \<lfloor>a * 10 ^ f + 1 / 2\<rfloor>;
                          d = digits n;
                          z = (if length d \<le> f then replicate (f + 1 - length d) (CHR ''0'') @ d
                               else d)
                      in if f \<noteq> 0
                         then take (length z - f) z @ ''.'' @ drop (length z - f) z
                         else d)
           in s @ m))"

text \<open>\<open>s.replace(a, b)\<close> with one-character strings: only the first occurrence changes.\<close>

fun replaceFirst :: "char \<Rightarrow> char \<Rightarrow> string \<Rightarrow> string" where
  "replaceFirst a b [] = []"
| "replaceFirst a b (c # cs) = (if c = a then b # cs else c # replaceFirst a b cs)"

section \<open>Values received from the backend\<close>

text \<open>
  Responses are parsed JSON of unknown shape, so the code tests what it holds before it
  reads: \<open>Array.isArray\<close>, optional chaining \<open>v?.k\<close>, truthiness, \<open>Number(v)\<close>.
  \<open>jsval\<close> is a parsed JSON value, together with \<open>undefined\<close> (what a read of an absent
  property gives) and the non-finite numbers.
\<close>

datatype jsval =
    JUndefined
  | JNull
  | JBool bool
  | JNum jsnum
  | JStr string
  | JArr "jsval list"
  | JObj "(string \<times> jsval) list"

datatype error = TypeError

text \<open>
  \<open>Number(v)\<close>. An array converts through its text, the elements joined by commas with
  \<open>null\<close> and \<open>undefined\<close> as the empty string: no element gives \<open>0\<close>, one element gives
  what its own text converts to, two or more give \<open>NaN\<close> (a comma is in the text). An
  object converts through the text \<open>[object Object]\<close>, which is \<open>NaN\<close>.
\<close>

fun ToNumber :: "jsval \<Rightarrow> jsnum" where
  "ToNumber JUndefined = NaN"
| "ToNumber JNull = Fin 0"
| "ToNumber (JBool b) = (if b then Fin 1 else Fin 0)"
| "ToNumber (JNum n) = n"
| "ToNumber (JStr s) = StringToNumber s"
| "ToNumber (JArr []) = Fin 0"
| "ToNumber (JArr [x]) =
     (case x of
        JUndefined \<Rightarrow> Fin 0
      | JNull \<Rightarrow> Fin 0
      | JBool b \<Rightarrow> NaN
      | JObj kvs \<Rightarrow> NaN
      | _ \<Rightarrow> ToNumber x)"
| "ToNumber (JArr (x # y # zs)) = NaN"
| "ToNumber (JObj kvs) = NaN"

fun ToBoolean :: "jsval \<Rightarrow> bool" where
  "ToBoolean JUndefined = False"
| "ToBoolean JNull = False"
| "ToBoolean (JBool b) = b"
| "ToBoolean (JNum n) = (n \<noteq> NaN \<and> n \<noteq> Fin 0)"
| "ToBoolean (JStr s) = (s \<noteq> [])"
| "ToBoolean (JArr xs) = True"
| "ToBoolean (JObj kvs) = True"

fun Array_isArray :: "jsval \<Rightarrow> bool" where
  "Array_isArray (JArr xs) = True"
| "Array_isArray _ = False"

fun elems :: "jsval \<Rightarrow> jsval list" where
  "elems (JArr xs) = xs"
| "elems _ = []"

text \<open>
  \<open>v.k\<close> for the property names the code reads, none of which is built in: the value
  stored under \<open>k\<close> in an object, \<open>undefined\<close> in any other value, and a \<open>TypeError\<close>
  when \<open>v\<close> is \<open>null\<close> or \<open>undefined\<close>. \<open>v?.k\<close> gives \<open>undefined\<close> instead of the error.
\<close>

fun propOf :: "jsval \<Rightarrow> string \<Rightarrow> jsval" where
  "propOf (JObj kvs) k = (case map_of kvs k of Some v \<Rightarrow> v | None \<Rightarrow> JUndefined)"
| "propOf _ k = JUndefined"

fun getProp :: "jsval \<Rightarrow> string \<Rightarrow> error + jsval" where
  "getProp JUndefined k = Inl TypeError"
| "getProp JNull k = Inl TypeError"
| "getProp v k = Inr (propOf v k)"

definition optProp :: "jsval \<Rightarrow> string \<Rightarrow> jsval" where
  "optProp v k = propOf v k"

text \<open>\<open>p[i]\<close> on an array: \<open>undefined\<close> past the end.\<close>

definition index :: "jsval list \<Rightarrow> nat \<Rightarrow> jsval" where
  "index xs i = (if i < length xs then xs ! i else JUndefined)"

section \<open>Formatting and reading numbers (util)\<close>

definition fmt2 :: "(rat \<Rightarrow> string) \<Rightarrow> jsval \<Rightarrow> string" where
  "fmt2 numToString x =
     (if x = JNull \<or> x = JUndefined \<or> x = JStr '''' \<or> Number_isNaN (ToNumber x) then ''''
      else replaceFirst (CHR ''.'') (CHR '','') (toFixed numToString (ToNumber x) 2))"

definition numOr0 :: "jsval \<Rightarrow> jsnum" where
  "numOr0 v = (let n = ToNumber v in if Number_isFinite n then n else Fin 0)"

definition fmt2Safe :: "(rat \<Rightarrow> string) \<Rightarrow> jsval \<Rightarrow> string" where
  "fmt2Safe numToString x =
     (let n = ToNumber x in if Number_isFinite n then fmt2 numToString (JNum n) else '''')"

definition fmt1Safe :: "(rat \<Rightarrow> string) \<Rightarrow> jsval \<Rightarrow> string" where
  "fmt1Safe numToString x =
     (let n = ToNumber x
      in if \<not> Number_isFinite n then ''''
         else replaceFirst (CHR ''.'') (CHR '','') (toFixed numToString n 1))"

section \<open>Vehicle registry\<close>

text \<open>
  \<open>VEHICLES\<close> maps a vehicle id to its display name and tonnage. Only the tonnage enters
  a calculation; the display name is left out of the model.
\<close>

definition VEHICLES :: "(rat \<times> rat) list" where
  "VEHICLES = [(716, 9), (719, 9), (182, 14), (432, 14), (717, 9)]"

definition VEHICLES_get :: "jsnum \<Rightarrow> rat option" where
  "VEHICLES_get oid = (case oid of Fin r \<Rightarrow> map_of VEHICLES r | _ \<Rightarrow> None)"

text \<open>The argument is \<open>oidSelect.value\<close>, the text of the selected option.\<close>

definition getVehicleTonnage :: "string \<Rightarrow> jsnum" where
  "getVehicleTonnage oidValue =
     (let oid = StringToNumber oidValue
      in case VEHICLES_get oid of Some tonnage \<Rightarrow> Fin tonnage | None \<Rightarrow> Fin 0)"

section \<open>Row calculation\<close>

text \<open>
  A table row (\<open>tr.data-row\<close>) is read through \<open>querySelector\<close>, which gives \<open>null\<close>
  when the row has no such element. Each field below is the text the code reads or
  writes in one element of the row, \<open>None\<close> when the element is absent:
  the value of \<open>select.route\<close>, the text of \<open>.trip-km\<close>, the value of \<open>.trip-tons\<close>, and
  the texts of \<open>.js-width\<close>, \<open>.js-length\<close> and \<open>.js-tons\<close>.
\<close>

record row =
  routeSel :: "string option"
  tripKm :: "string option"
  tripTons :: "string option"
  jsWidth :: "string option"
  jsLength :: "string option"
  jsTons :: "string option"

definition coeffByWidth :: "jsval \<Rightarrow> jsnum" where
  "coeffByWidth widthM =
     (let w = ToNumber widthM
      in if js_lt (Math_abs (js_sub w (Fin 7))) (literal (1 / 100)) then literal (14 / 10)
         else if js_lt (Math_abs (js_sub w (Fin 6))) (literal (1 / 100)) then literal (12 / 10)
         else literal (12 / 10))"

definition getRowWidth :: "row \<Rightarrow> jsnum" where
  "getRowWidth r =
     (let w = (case jsWidth r of
                 Some textContent \<Rightarrow> StringToNumber (replaceFirst (CHR '','') (CHR ''.'') textContent)
               | None \<Rightarrow> NaN)
      in if Number_isFinite w then w else NaN)"

text \<open>The local \<open>maxLen\<close> of \<open>recalcRowKm\<close>: the number read from the length cell.\<close>

definition rowMaxLen :: "row \<Rightarrow> jsnum" where
  "rowMaxLen r =
     StringToNumber (replaceFirst (CHR '','') (CHR ''.'')
       (case jsLength r of Some textContent \<Rightarrow> textContent | None \<Rightarrow> ''''))"

text \<open>
  \<open>recalcRowKm\<close> either leaves the row alone (it has no distance cell or no tonnage
  input), or blanks the distance cell, or writes the formatted value of its local \<open>km\<close>.
  \<open>rowKm\<close> is the function up to that point, \<open>recalcRowKm\<close> adds the write.
\<close>

datatype km_result = Untouched | Blank | Km jsnum

definition rowKm :: "row \<Rightarrow> km_result" where
  "rowKm r =
     (case tripKm r of
        None \<Rightarrow> Untouched
      | Some kmText \<Rightarrow>
          (case tripTons r of
             None \<Rightarrow> Untouched
           | Some tonsValue \<Rightarrow>
               if routeSel r = None \<or> routeSel r = Some '''' then Blank
               else
                 let tons = numOr0 (JStr tonsValue)
                 in if js_le tons (Fin 0) then Blank
                    else
                      let widthM = getRowWidth r;
                          k = coeffByWidth (JNum widthM);
                          km = js_div tons k;
                          maxLen = rowMaxLen r
                      in if Number_isFinite maxLen \<and> js_gt km maxLen then Km maxLen
                         else Km km))"

definition recalcRowKm :: "(rat \<Rightarrow> string) \<Rightarrow> row \<Rightarrow> row" where
  "recalcRowKm numToString r =
     (case rowKm r of
        Untouched \<Rightarrow> r
      | Blank \<Rightarrow> r\<lparr>tripKm := Some ''''\<rparr>
      | Km km \<Rightarrow> r\<lparr>tripKm := Some (fmt2 numToString (JNum km))\<rparr>)"

section \<open>Totals\<close>

text \<open>
  \<open>recalcTotals\<close> reads every row and the selected vehicle and writes five cells.
  The placeholder it writes for a zero is an em dash (U+2014), here in UTF-8.
\<close>

record totals =
  total_tons_sum_cell :: string
  total_km_sum_cell :: string
  vehicle_tonnage_cell :: string
  trips_count_cell :: string
  total_tons_cell :: string

definition emDash :: string where
  "emDash = [CHR 0xE2, CHR 0x80, CHR 0x94]"

definition tonsSum :: "row list \<Rightarrow> jsnum" where
  "tonsSum rows =
     foldl (\<lambda>s r. js_add s (numOr0 (case tripTons r of Some v \<Rightarrow> JStr v | None \<Rightarrow> JUndefined)))
       (Fin 0) rows"

definition kmCellNumber :: "row \<Rightarrow> jsnum" where
  "kmCellNumber r =
     StringToNumber (replaceFirst (CHR '','') (CHR ''.'')
       (case tripKm r of Some textContent \<Rightarrow> textContent | None \<Rightarrow> ''''))"

definition kmSum :: "row list \<Rightarrow> jsnum" where
  "kmSum rows =
     foldl (\<lambda>s r. let n = kmCellNumber r in if Number_isFinite n then js_add s n else s)
       (Fin 0) rows"

definition tripsCount :: "row list \<Rightarrow> nat" where
  "tripsCount rows =
     foldl (\<lambda>trips r. if routeSel r \<noteq> None \<and> routeSel r \<noteq> Some '''' then trips + 1 else trips)
       0 rows"

definition recalcTotals :: "(rat \<Rightarrow> string) \<Rightarrow> row list \<Rightarrow> string \<Rightarrow> totals" where
  "recalcTotals numToString rows oidValue =
     (let tonnage = getVehicleTonnage oidValue;
          trips = tripsCount rows
      in \<lparr> total_tons_sum_cell = fmt2 numToString (JNum (tonsSum rows)),
           total_km_sum_cell = fmt2 numToString (JNum (kmSum rows)),
           vehicle_tonnage_cell =
             (if ToBoolean (JNum tonnage) then fmt2 numToString (JNum tonnage) else emDash),
           trips_count_cell = (if trips \<noteq> 0 then digits trips else emDash),
           total_tons_cell =
             (if ToBoolean (JNum (tonsSum rows)) then fmt2 numToString (JNum (tonsSum rows))
              else emDash) \<rparr>)"

section \<open>Route catalog\<close>

text \<open>
  \<open>ROUTES\<close> is a \<open>Map\<close>: it iterates in the order in which its keys were first set, and
  \<open>set\<close> on a key it already holds replaces the value and keeps the position. Keys are
  compared by SameValueZero; two parsed arrays or objects are never the same key.
\<close>

record route_params =
  road_width_m :: jsval
  road_length_km :: jsval
  pss_tonnage_t :: jsval

type_synonym routes = "(jsval \<times> route_params) list"

fun SameValueZero :: "jsval \<Rightarrow> jsval \<Rightarrow> bool" where
  "SameValueZero (JArr xs) b = False"
| "SameValueZero (JObj kvs) b = False"
| "SameValueZero a b = (a = b)"

fun Map_set :: "routes \<Rightarrow> jsval \<Rightarrow> route_params \<Rightarrow> routes" where
  "Map_set [] k v = [(k, v)]"
| "Map_set ((k', v') # m) k v =
     (if SameValueZero k' k then (k', v) # m else (k', v') # Map_set m k v)"

fun Map_get :: "routes \<Rightarrow> jsval \<Rightarrow> route_params option" where
  "Map_get [] k = None"
| "Map_get ((k', v') # m) k = (if SameValueZero k' k then Some v' else Map_get m k)"

text \<open>
  \<open>loadRoutes\<close> on the parsed response: the new content of \<open>ROUTES\<close>, which is cleared
  first. \<open>loadStep\<close> is one pass of its loop over the routes.
\<close>

definition loadStep :: "routes \<Rightarrow> jsval \<Rightarrow> routes" where
  "loadStep ROUTES r =
     (if \<not> ToBoolean (optProp r ''name'') then ROUTES
      else Map_set ROUTES (propOf r ''name'')
             \<lparr> road_width_m = propOf r ''road_width_m'',
               road_length_km = propOf r ''road_length_km'',
               pss_tonnage_t = propOf r ''pss_tonnage_t'' \<rparr>)"

definition loadRoutes :: "jsval \<Rightarrow> routes" where
  "loadRoutes data =
     (let routes = (if Array_isArray (optProp data ''routes'') then elems (optProp data ''routes'')
                    else [])
      in foldl loadStep [] routes)"

text \<open>The names the option loop \<open>for (const [name] of ROUTES)\<close> goes through.\<close>

definition routeNames :: "routes \<Rightarrow> jsval list" where
  "routeNames ROUTES = map fst ROUTES"

definition fillRouteRowParams :: "(rat \<Rightarrow> string) \<Rightarrow> routes \<Rightarrow> row \<Rightarrow> string \<Rightarrow> row" where
  "fillRouteRowParams numToString ROUTES rw routeName =
     (case Map_get ROUTES (JStr routeName) of
        None \<Rightarrow>
          rw\<lparr> jsWidth := map_option (\<lambda>_. '''') (jsWidth rw),
              jsLength := map_option (\<lambda>_. '''') (jsLength rw),
              jsTons := map_option (\<lambda>_. '''') (jsTons rw) \<rparr>
      | Some r \<Rightarrow>
          rw\<lparr> jsWidth := map_option (\<lambda>_. fmt1Safe numToString (road_width_m r)) (jsWidth rw),
              jsLength := map_option (\<lambda>_. fmt2Safe numToString (road_length_km r)) (jsLength rw),
              jsTons := map_option (\<lambda>_. fmt2Safe numToString (pss_tonnage_t r)) (jsTons rw) \<rparr>)"

text \<open>
  The two handlers of \<open>attachEvents\<close> that change a row: a route is chosen in the row's
  select, a tonnage is typed into the row's input.
\<close>

definition onRouteChange :: "(rat \<Rightarrow> string) \<Rightarrow> routes \<Rightarrow> row \<Rightarrow> string \<Rightarrow> row" where
  "onRouteChange numToString ROUTES rw v =
     recalcRowKm numToString (fillRouteRowParams numToString ROUTES (rw\<lparr>routeSel := Some v\<rparr>) v)"

definition onTonsInput :: "(rat \<Rightarrow> string) \<Rightarrow> row \<Rightarrow> string \<Rightarrow> row" where
  "onTonsInput numToString rw v = recalcRowKm numToString (rw\<lparr>tripTons := Some v\<rparr>)"

section \<open>Trip geometry\<close>

type_synonym latlng = "jsnum \<times> jsnum"

definition finitePair :: "latlng \<Rightarrow> bool" where
  "finitePair p = (Number_isFinite (fst p) \<and> Number_isFinite (snd p))"

text \<open>\<open>trip.coords\<close>: each element becomes a pair of numbers, or \<open>null\<close> if it is no array.\<close>

definition coordPair :: "jsval \<Rightarrow> latlng option" where
  "coordPair p =
     (if Array_isArray p then Some (ToNumber (index (elems p) 0), ToNumber (index (elems p) 1))
      else None)"

definition coordsLatLngs :: "jsval list \<Rightarrow> latlng list" where
  "coordsLatLngs coords =
     map the (filter (\<lambda>p. p \<noteq> None \<and> finitePair (the p)) (map coordPair coords))"

text \<open>\<open>points\<close>: reading \<open>p.lat\<close> of a \<open>null\<close> element throws, which ends the whole call.\<close>

definition pointPair :: "jsval \<Rightarrow> error + latlng" where
  "pointPair p =
     (case getProp p ''lat'' of
        Inl e \<Rightarrow> Inl e
      | Inr lat \<Rightarrow>
          (case getProp p ''lon'' of
             Inl e \<Rightarrow> Inl e
           | Inr lon \<Rightarrow> Inr (ToNumber lat, ToNumber lon)))"

fun mapPoints :: "jsval list \<Rightarrow> error + latlng list" where
  "mapPoints [] = Inr []"
| "mapPoints (p # ps) =
     (case pointPair p of
        Inl e \<Rightarrow> Inl e
      | Inr ll \<Rightarrow> (case mapPoints ps of Inl e \<Rightarrow> Inl e | Inr r \<Rightarrow> Inr (ll # r)))"

definition pointsLatLngs :: "jsval list \<Rightarrow> error + latlng list" where
  "pointsLatLngs points =
     (case mapPoints points of Inl e \<Rightarrow> Inl e | Inr ll \<Rightarrow> Inr (filter finitePair ll))"

definition normalizeLatLngsFromTrip :: "jsval \<Rightarrow> error + latlng list" where
  "normalizeLatLngsFromTrip trip =
     (let coords = optProp trip ''coords'';
          points = optProp trip ''points''
      in if Array_isArray coords \<and> elems coords \<noteq> [] \<and> coordsLatLngs (elems coords) \<noteq> []
         then Inr (coordsLatLngs (elems coords))
         else if Array_isArray points \<and> elems points \<noteq> []
         then (case pointsLatLngs (elems points) of
                 Inl e \<Rightarrow> Inl e
               | Inr ll \<Rightarrow> if ll \<noteq> [] then Inr ll else Inr [])
         else Inr [])"

text \<open>
  What \<open>renderTripsFromApiData\<close> puts on the map, with the count its label shows:
  the payload handed to the GeoJSON layer and the number of features; the polylines of
  the trip list and the number of trips drawn; the one polyline of a flat point list and
  its number of points; or nothing, with the label that no route was found.
\<close>

datatype rendered =
    GeoJSON jsval nat
  | Trips "latlng list list" nat
  | Points "latlng list" nat
  | NotFound

fun tripsForEach :: "jsval list \<Rightarrow> latlng list list \<times> nat \<Rightarrow> error + latlng list list \<times> nat" where
  "tripsForEach [] st = Inr st"
| "tripsForEach (t # ts) (lines, count) =
     (case normalizeLatLngsFromTrip t of
        Inl e \<Rightarrow> Inl e
      | Inr ll \<Rightarrow>
          if length ll < 2 then tripsForEach ts (lines, count)
          else tripsForEach ts (lines @ [ll], count + 1))"

definition renderTripsFromApiData :: "jsval \<Rightarrow> error + rendered" where
  "renderTripsFromApiData data =
     (if optProp data ''type'' = JStr ''FeatureCollection'' \<and> Array_isArray (propOf data ''features'')
      then Inr (GeoJSON data (length (elems (propOf data ''features''))))
      else
        let trips = (if Array_isArray (optProp data ''trips'') then elems (optProp data ''trips'')
                     else if Array_isArray data then elems data else [])
        in if trips \<noteq> []
           then (case tripsForEach trips ([], 0) of
                   Inl e \<Rightarrow> Inl e
                 | Inr (lines, count) \<Rightarrow> Inr (Trips lines count))
           else
             let pts = optProp data ''points''
             in if Array_isArray pts \<and> elems pts \<noteq> []
                then (case pointsLatLngs (elems pts) of
                        Inl e \<Rightarrow> Inl e
                      | Inr ll \<Rightarrow> if 2 \<le> length ll then Inr (Points ll (length ll)) else Inr NotFound)
                else Inr NotFound)"

section \<open>Definitions used to state the properties\<close>

text \<open>
  An instance of the parameter \<open>numToString\<close> for evaluating at concrete inputs below
  \<open>10^21\<close>, where it is never called.
\<close>

definition stubNumToString :: "rat \<Rightarrow> string" where
  "stubNumToString a = []"

text \<open>
  The road width of a row: the number that the text of its width cell denotes, with a
  comma or a point before the decimals; none when the row has no width cell or the text
  is no finite number.
\<close>

definition roadWidth :: "row \<Rightarrow> rat option" where
  "roadWidth r =
     (case jsWidth r of
        None \<Rightarrow> None
      | Some textContent \<Rightarrow>
          (case StringToNumber (replaceFirst (CHR '','') (CHR ''.'') textContent) of
             Fin w \<Rightarrow> Some w
           | _ \<Rightarrow> None))"

text \<open>
  The width coefficient as the specification words it: \<open>1.4\<close> for a width within
  \<open>0.01\<close> of \<open>7\<close>, \<open>1.2\<close> within \<open>0.01\<close> of \<open>6\<close>, and \<open>1.2\<close> for every other width and
  for no width. No binary64 number is at the distance \<open>0.01\<close> from \<open>6\<close> or \<open>7\<close>, so
  it makes no difference whether ``within'' includes that distance.
\<close>

definition spec_widthCoefficient :: "rat option \<Rightarrow> rat" where
  "spec_widthCoefficient width =
     (case width of
        Some w \<Rightarrow>
          if \<bar>w - 7\<bar> < 1 / 100 then 14 / 10
          else if \<bar>w - 6\<bar> < 1 / 100 then 12 / 10
          else 12 / 10
      | None \<Rightarrow> 12 / 10)"

text \<open>A filled row of the form, used to evaluate the row calculation.\<close>

definition exampleRow :: row where
  "exampleRow =
     \<lparr> routeSel = Some ''R1'', tripKm = Some '''', tripTons = Some ''20'',
       jsWidth = Some ''7,0'', jsLength = Some ''10,00'', jsTons = Some ''50,00'' \<rparr>"

text \<open>
  The same row with \<open>5\<close> tons and the width \<open>7,01\<close>, which denotes the binary64 number
  just below \<open>7.01\<close>; and the row without a width cell.
\<close>

definition rowOfWidth701 :: row where
  "rowOfWidth701 = exampleRow\<lparr>tripTons := Some ''5'', jsWidth := Some ''7,01''\<rparr>"

definition rowWithoutWidth :: row where
  "rowWithoutWidth = exampleRow\<lparr>jsWidth := None\<rparr>"

text \<open>
  The delivered tonnage of a row: the finite number typed into its tonnage input, and
  \<open>0\<close> when the row has no such input or the text is no finite number. \<open>js_sum\<close> adds
  numbers from left to right as \<open>+=\<close> does, starting from \<open>0\<close>.
\<close>

definition deliveredTonnage :: "row \<Rightarrow> rat" where
  "deliveredTonnage r =
     (case tripTons r of
        None \<Rightarrow> 0
      | Some v \<Rightarrow> (case StringToNumber v of Fin t \<Rightarrow> t | _ \<Rightarrow> 0))"

definition js_sum :: "rat list \<Rightarrow> jsnum" where
  "js_sum xs = foldl (\<lambda>s x. js_add s (Fin x)) (Fin 0) xs"

text \<open>
  A catalog response whose only route has no \<open>road_length_km\<close>, a row of the form before
  anything is chosen, and that row after the route is chosen and \<open>12\<close> tons are typed.
\<close>

definition routesResponse :: jsval where
  "routesResponse =
     JObj [(''routes'', JArr [JObj [(''name'', JStr ''R1''), (''road_width_m'', JNum (Fin 6))]])]"

definition emptyRow :: row where
  "emptyRow =
     \<lparr> routeSel = Some '''', tripKm = Some '''', tripTons = Some '''',
       jsWidth = Some '''', jsLength = Some '''', jsTons = Some '''' \<rparr>"

definition rowWithoutLength :: row where
  "rowWithoutLength =
     onTonsInput stubNumToString
       (onRouteChange stubNumToString (loadRoutes routesResponse) emptyRow ''R1'') ''12''"

text \<open>
  For the catalog: the names that are no array and no object (two of those are never
  the same key); the parameters stored for an entry; the entries of a response that
  have a name, with their parameters, in the order received; and a list without the
  later occurrences of its elements.
\<close>

fun isPrimitive :: "jsval \<Rightarrow> bool" where
  "isPrimitive (JArr xs) = False"
| "isPrimitive (JObj kvs) = False"
| "isPrimitive v = True"

definition routeParams :: "jsval \<Rightarrow> route_params" where
  "routeParams r =
     \<lparr> road_width_m = propOf r ''road_width_m'',
       road_length_km = propOf r ''road_length_km'',
       pss_tonnage_t = propOf r ''pss_tonnage_t'' \<rparr>"

definition namedEntries :: "jsval list \<Rightarrow> (jsval \<times> route_params) list" where
  "namedEntries entries =
     map (\<lambda>r. (propOf r ''name'', routeParams r))
       (filter (\<lambda>r. ToBoolean (propOf r ''name'')) entries)"

definition firstOccurrences :: "'a list \<Rightarrow> 'a list" where
  "firstOccurrences xs = rev (remdups (rev xs))"

text \<open>
  A catalog response in which the name \<open>A\<close> comes twice, with an entry whose name is
  empty and an entry without a name in between.
\<close>

definition duplicateEntries :: "jsval list" where
  "duplicateEntries =
     [JObj [(''name'', JStr ''A''), (''road_width_m'', JNum (Fin 7)),
            (''road_length_km'', JNum (Fin 10))],
      JObj [(''name'', JStr ''''), (''road_width_m'', JNum (Fin 5))],
      JObj [(''name'', JStr ''B''), (''road_width_m'', JNum (Fin 6))],
      JObj [(''road_width_m'', JNum (Fin 4))],
      JObj [(''name'', JStr ''A''), (''road_width_m'', JNum (Fin 6)),
            (''road_length_km'', JNum (Fin 3))]]"

definition duplicateRoutes :: jsval where
  "duplicateRoutes = JObj [(''routes'', JArr duplicateEntries)]"










text \<open>
  Payloads with components that are no numbers: a trip whose \<open>coords\<close> have a pair of
  \<open>null\<close> and a pair of an empty text and \<open>false\<close> between two pairs of numbers; a flat
  point list with a point whose \<open>lat\<close> and \<open>lon\<close> are \<open>null\<close>; and a trip whose
  \<open>points\<close> have \<open>null\<close> in the place of a point.
\<close>

definition nullCoordsTrip :: jsval where
  "nullCoordsTrip =
     JObj [(''coords'', JArr
       [JArr [JNum (Fin 52), JNum (Fin (75 / 2))],
        JArr [JNull, JNull],
        JArr [JStr '''', JBool False],
        JArr [JNum (Fin (209 / 4)), JNum (Fin (151 / 4))]])]"

definition nullCoordsTripList :: jsval where
  "nullCoordsTripList = JObj [(''trips'', JArr [nullCoordsTrip])]"

definition nullLatLonPoints :: jsval where
  "nullLatLonPoints =
     JObj [(''points'', JArr
       [JObj [(''lat'', JNum (Fin 52)), (''lon'', JNum (Fin (75 / 2)))],
        JObj [(''lat'', JNull), (''lon'', JNull)],
        JObj [(''lat'', JNum (Fin (209 / 4))), (''lon'', JNum (Fin (151 / 4)))]])]"

definition nullPointTrip :: jsval where
  "nullPointTrip =
     JObj [(''points'', JArr
       [JObj [(''lat'', JNum (Fin 52)), (''lon'', JNum (Fin (75 / 2)))],
        JNull,
        JObj [(''lat'', JNum (Fin (209 / 4))), (''lon'', JNum (Fin (151 / 4)))]])]"

text \<open>
  For the distance sum: rounding to two decimals as \<open>toFixed(2)\<close> does it (to the
  nearest hundredth, a tie away from zero); the distance of a row, when
  \<open>recalcRowKm\<close> computes one; and four rows, two with one ton on a road of width
  \<open>7\<close>, one without a route, and one with \<open>2.01\<close> tons on a road of width \<open>6\<close>.
\<close>

definition round2 :: "rat \<Rightarrow> rat" where
  "round2 x = (if x < 0 then - 1 else 1) * of_int \<lfloor>\<bar>x\<bar> * 100 + 1 / 2\<rfloor> / 100"

definition allocatedDistanceKm :: "row \<Rightarrow> rat option" where
  "allocatedDistanceKm r = (case rowKm r of Km (Fin x) \<Rightarrow> Some x | _ \<Rightarrow> None)"

definition fourRows :: "row list" where
  "fourRows =
     [exampleRow\<lparr>tripTons := Some ''1''\<rparr>, exampleRow\<lparr>tripTons := Some ''1''\<rparr>,
      exampleRow\<lparr>routeSel := Some ''''\<rparr>,
      exampleRow\<lparr>tripTons := Some ''2.01'', jsWidth := Some ''6,0''\<rparr>]"

section \<open>Facts about rounding to binary64\<close>

lemma pow2_pos [simp]: "(0::rat) < 2 powi e"
  by simp

lemma pow2_mono: "a \<le> b \<Longrightarrow> (2::rat) powi a \<le> 2 powi b"
  by (rule power_int_increasing) simp_all

lemma pow2_strict_mono: "a < b \<Longrightarrow> (2::rat) powi a < 2 powi b"
  by (rule power_int_strict_increasing) simp_all

lemma pow2_less_cancel: "(2::rat) powi a < 2 powi b \<Longrightarrow> a < b"
  using pow2_mono [of b a] by (cases "a < b") auto

lemma pow2_add: "(2::rat) powi (a + b) = 2 powi a * 2 powi b"
  by (simp add: power_int_add)

lemma pow2_diff: "(2::rat) powi (a - b) = 2 powi a / 2 powi b"
  by (simp add: power_int_diff)

lemma int_pow2_bounds:
  assumes "0 < (x::int)"
  shows "(2::rat) powi (bitlen x - 1) \<le> of_int x" and "(of_int x :: rat) < 2 powi (bitlen x)"
proof -
  have b: "2 ^ nat (bitlen x - 1) \<le> x" "x < 2 ^ nat (bitlen x)"
    using bitlen_bounds [OF assms] by simp_all
  have ge1: "1 \<le> bitlen x"
    using assms bitlen_eq_zero_iff [of x] bitlen_nonneg [of x] by (cases "bitlen x = 0") auto
  have "(of_int (2 ^ nat (bitlen x - 1)) :: rat) \<le> of_int x"
    using b(1) by (simp only: of_int_le_iff)
  then show "(2::rat) powi (bitlen x - 1) \<le> of_int x"
    using ge1 by (simp add: power_int_nonneg_exp)
  have "(of_int x :: rat) < of_int (2 ^ nat (bitlen x))"
    using b(2) by (simp only: of_int_less_iff)
  then show "(of_int x :: rat) < 2 powi (bitlen x)"
    using ge1 by (simp add: power_int_nonneg_exp)
qed

lemma floorLog2_bounds:
  assumes "0 < a"
  shows "2 powi (floorLog2 a) \<le> a" and "a < 2 powi (floorLog2 a + 1)"
proof -
  obtain p q where pq: "quotient_of a = (p, q)" by (cases "quotient_of a")
  have q: "0 < q" using quotient_of_denom_pos [OF pq] .
  have a: "a = of_int p / of_int q" using quotient_of_div [OF pq] .
  have p: "0 < p"
    using assms q unfolding a by (simp add: zero_less_divide_iff)
  define d where "d = bitlen p - bitlen q"
  have lo: "2 powi (d - 1) \<le> a"
  proof -
    have "(2::rat) powi (d - 1) = 2 powi (bitlen p - 1) / 2 powi (bitlen q)"
      unfolding d_def by (simp add: pow2_diff [symmetric] algebra_simps)
    also have "\<dots> \<le> of_int p / 2 powi (bitlen q)"
      using int_pow2_bounds(1) [OF p] by (simp add: divide_right_mono)
    also have "\<dots> \<le> of_int p / of_int q"
      using int_pow2_bounds(2) [OF q] p q by (intro divide_left_mono) simp_all
    finally show ?thesis unfolding a .
  qed
  have hi: "a < 2 powi (d + 1)"
  proof -
    have "a < 2 powi (bitlen p) / of_int q"
      unfolding a using int_pow2_bounds(2) [OF p] q by (simp add: divide_strict_right_mono)
    also have "\<dots> \<le> 2 powi (bitlen p) / 2 powi (bitlen q - 1)"
      using int_pow2_bounds(1) [OF q] q by (intro divide_left_mono) simp_all
    also have "\<dots> = 2 powi (d + 1)"
      unfolding d_def by (simp add: pow2_diff [symmetric] algebra_simps)
    finally show ?thesis .
  qed
  have f: "floorLog2 a = (if 2 powi d \<le> a then d else d - 1)"
    by (simp add: floorLog2_def pq d_def Let_def)
  show "2 powi (floorLog2 a) \<le> a"
    using lo unfolding f by simp
  show "a < 2 powi (floorLog2 a + 1)"
    using hi unfolding f by (auto simp: not_le)
qed

lemma floorLog2_unique:
  assumes "2 powi l \<le> a" and "a < 2 powi (l + 1)"
  shows "floorLog2 a = l"
proof -
  have pos: "0 < a"
    using assms(1) pow2_pos [of l] by linarith
  have "2 powi (floorLog2 a) < (2::rat) powi (l + 1)"
    using floorLog2_bounds(1) [OF pos] assms(2) by linarith
  then have 1: "floorLog2 a < l + 1" by (rule pow2_less_cancel)
  have "(2::rat) powi l < 2 powi (floorLog2 a + 1)"
    using floorLog2_bounds(2) [OF pos] assms(1) by linarith
  then have 2: "l < floorLog2 a + 1" by (rule pow2_less_cancel)
  show ?thesis using 1 2 by simp
qed

lemma roundHalfEven_error: "\<bar>of_int (roundHalfEven x) - x\<bar> \<le> 1 / 2"
proof -
  have "of_int \<lfloor>x\<rfloor> \<le> x" "x < of_int \<lfloor>x\<rfloor> + 1"
    by linarith+
  then show ?thesis
    by (auto simp: roundHalfEven_def Let_def abs_le_iff)
qed

lemma roundHalfEven_of_int [simp]: "roundHalfEven (of_int n) = n"
  by (simp add: roundHalfEven_def)

lemma roundHalfEven_nonneg: "0 \<le> x \<Longrightarrow> 0 \<le> roundHalfEven x"
  by (auto simp: roundHalfEven_def Let_def)

lemma roundHalfEven_pos:
  assumes "1 / 2 < x"
  shows "0 < roundHalfEven x"
proof -
  have "x - 1 / 2 \<le> of_int (roundHalfEven x)"
    using roundHalfEven_error [of x] by linarith
  then have "(0::rat) < of_int (roundHalfEven x)"
    using assms by linarith
  then show ?thesis by simp
qed

lemma binary64_0 [simp]: "binary64 0 = 0"
  by (simp add: binary64_def)

lemma binary64_minus: "binary64 (- r) = - binary64 r"
  by (simp add: binary64_def Let_def sgn_minus)

lemma binary64_pos_def:
  "0 < a \<Longrightarrow> binary64 a = of_int (roundHalfEven (a / 2 powi exponent64 a)) * 2 powi exponent64 a"
  by (simp add: binary64_def Let_def)

lemma exponent64_ge: "- 1074 \<le> exponent64 a"
  by (simp add: exponent64_def)

lemma exponent64_normal:
  assumes "2 powi (- 1022) \<le> a"
  shows "exponent64 a = floorLog2 a - 52"
proof -
  have pos: "0 < a" using assms pow2_pos [of "- 1022"] by linarith
  have "(2::rat) powi (- 1022) < 2 powi (floorLog2 a + 1)"
    using floorLog2_bounds(2) [OF pos] assms by linarith
  then have "- 1022 < floorLog2 a + 1" by (rule pow2_less_cancel)
  then show ?thesis by (simp add: exponent64_def)
qed

lemma exponent64_le:
  assumes "0 < a" and "a < 2 powi (g + 53)" and "- 1074 \<le> g"
  shows "exponent64 a \<le> g"
proof -
  have "(2::rat) powi (floorLog2 a) < 2 powi (g + 53)"
    using floorLog2_bounds(1) [OF assms(1)] assms(2) by linarith
  then have "floorLog2 a < g + 53" by (rule pow2_less_cancel)
  then show ?thesis using assms(3) by (simp add: exponent64_def)
qed

lemma pow2_exponent64_le:
  assumes "2 powi (- 1022) \<le> a"
  shows "2 powi (exponent64 a) \<le> a / 2 ^ 52"
proof -
  have pos: "0 < a" using assms pow2_pos [of "- 1022"] by linarith
  have "(2::rat) powi (exponent64 a) = 2 powi (floorLog2 a) / 2 powi 52"
    unfolding exponent64_normal [OF assms] by (rule pow2_diff)
  also have "\<dots> \<le> a / 2 powi 52"
    using floorLog2_bounds(1) [OF pos] by (simp add: divide_right_mono)
  finally show ?thesis by simp
qed

lemma binary64_error:
  assumes "0 < a"
  shows "\<bar>binary64 a - a\<bar> \<le> 2 powi (exponent64 a) / 2"
proof -
  define e where "e = exponent64 a"
  define m where "m = roundHalfEven (a / 2 powi e)"
  have p: "(0::rat) < 2 powi e" by simp
  have "\<bar>of_int m - a / 2 powi e\<bar> \<le> 1 / 2"
    unfolding m_def by (rule roundHalfEven_error)
  then have "\<bar>of_int m - a / 2 powi e\<bar> * 2 powi e \<le> 1 / 2 * 2 powi e"
    using p by (intro mult_right_mono) simp_all
  moreover have "\<bar>of_int m - a / 2 powi e\<bar> * 2 powi e = \<bar>of_int m * 2 powi e - a\<bar>"
  proof -
    have "\<bar>of_int m - a / 2 powi e\<bar> * 2 powi e = \<bar>(of_int m - a / 2 powi e) * 2 powi e\<bar>"
      using p by (simp add: abs_mult)
    also have "(of_int m - a / 2 powi e) * 2 powi e = of_int m * 2 powi e - a"
      using p by (simp add: field_simps)
    finally show ?thesis .
  qed
  ultimately have "\<bar>of_int m * 2 powi e - a\<bar> \<le> 2 powi e / 2"
    by simp
  moreover have "binary64 a = of_int m * 2 powi e"
    unfolding m_def e_def by (rule binary64_pos_def [OF assms])
  ultimately show ?thesis
    unfolding e_def by simp
qed

lemma binary64_relative_error:
  assumes "2 powi (- 1022) \<le> a"
  shows "\<bar>binary64 a - a\<bar> \<le> a / 2 ^ 53"
proof -
  have pos: "0 < a" using assms pow2_pos [of "- 1022"] by linarith
  have "\<bar>binary64 a - a\<bar> \<le> 2 powi (exponent64 a) / 2"
    by (rule binary64_error [OF pos])
  also have "\<dots> \<le> (a / 2 ^ 52) / 2"
    using pow2_exponent64_le [OF assms] by simp
  also have "\<dots> = a / 2 ^ 53" by simp
  finally show ?thesis .
qed

lemma binary64_positive:
  assumes "2 powi (- 1075) < a"
  shows "0 < binary64 a"
proof -
  have pos: "0 < a" using assms pow2_pos [of "- 1075"] by linarith
  define e where "e = exponent64 a"
  have half: "1 / 2 < a / 2 powi e"
  proof (cases "e = - 1074")
    case True
    have "(2::rat) powi (- 1075) = 1 / 2 * 2 powi (- 1074)"
      using pow2_add [of "- 1" "- 1074"] by simp
    then have "1 / 2 * 2 powi e < a"
      using assms True by simp
    then show ?thesis
      by (simp add: pos_less_divide_eq)
  next
    case False
    then have e: "e = floorLog2 a - 52"
      unfolding e_def exponent64_def by (simp add: max_def split: if_splits)
    have "(2::rat) powi (floorLog2 a) = 2 powi e * 2 ^ 52"
      unfolding e using pow2_add [of "floorLog2 a - 52" 52] by simp
    then have "2 powi e * 2 ^ 52 \<le> a"
      using floorLog2_bounds(1) [OF pos] by simp
    then have "(2::rat) ^ 52 \<le> a / 2 powi e"
      by (simp add: pos_le_divide_eq mult.commute)
    moreover have "(1::rat) \<le> 2 ^ 52" by simp
    ultimately show ?thesis by linarith
  qed
  have "0 < roundHalfEven (a / 2 powi e)"
    by (rule roundHalfEven_pos [OF half])
  then show ?thesis
    using pos by (simp add: binary64_pos_def e_def)
qed

lemma binary64_exact:
  assumes "\<bar>j\<bar> < 2 ^ 53" and "- 1074 \<le> g"
  shows "binary64 (of_int j * 2 powi g) = of_int j * 2 powi g"
proof -
  have pos_case: "binary64 (of_int k * 2 powi g) = of_int k * 2 powi g"
    if k: "0 < k" "k < 2 ^ 53" for k :: int
  proof -
    define a :: rat where "a = of_int k * 2 powi g"
    have pos: "0 < a" using k(1) by (simp add: a_def)
    have "(of_int k :: rat) < of_int (2 ^ 53)"
      using k(2) by (simp only: of_int_less_iff)
    then have "a < 2 ^ 53 * 2 powi g"
      unfolding a_def by simp
    also have "\<dots> = 2 powi (g + 53)"
      using pow2_add [of g 53] by simp
    finally have lt: "a < 2 powi (g + 53)" .
    define e where "e = exponent64 a"
    have le: "e \<le> g"
      unfolding e_def by (rule exponent64_le [OF pos lt assms(2)])
    have "(2::rat) powi g = 2 powi (g - e) * 2 powi e"
      using pow2_add [of "g - e" e] by simp
    also have "(2::rat) powi (g - e) = 2 ^ nat (g - e)"
      using le by (simp add: power_int_nonneg_exp)
    finally have g: "(2::rat) powi g = 2 ^ nat (g - e) * 2 powi e" .
    have "a / 2 powi e = of_int (k * 2 ^ nat (g - e))"
      unfolding a_def g by simp
    then have "roundHalfEven (a / 2 powi e) = k * 2 ^ nat (g - e)"
      by (simp only: roundHalfEven_of_int)
    then have "binary64 a = of_int (k * 2 ^ nat (g - e)) * 2 powi e"
      using pos by (simp add: binary64_pos_def e_def)
    also have "\<dots> = a"
      unfolding a_def g by simp
    finally show ?thesis unfolding a_def .
  qed
  consider "j = 0" | "0 < j" | "j < 0" by linarith
  then show ?thesis
  proof cases
    case 1
    then show ?thesis by simp
  next
    case 2
    then show ?thesis using pos_case [of j] assms(1) by simp
  next
    case 3
    then have "binary64 (of_int (- j) * 2 powi g) = of_int (- j) * 2 powi g"
      using pos_case [of "- j"] assms(1) by simp
    then show ?thesis
      using binary64_minus [of "of_int j * 2 powi g"] by simp
  qed
qed

lemma binary64_mantissa_bound:
  assumes "0 < a"
  shows "roundHalfEven (a / 2 powi exponent64 a) \<le> 2 ^ 53"
proof -
  define e where "e = exponent64 a"
  have "floorLog2 a + 1 \<le> e + 53"
    unfolding e_def exponent64_def by simp
  then have "(2::rat) powi (floorLog2 a + 1) \<le> 2 powi (e + 53)"
    by (rule pow2_mono)
  then have "a < 2 powi (e + 53)"
    using floorLog2_bounds(2) [OF assms] by linarith
  also have "\<dots> = 2 ^ 53 * 2 powi e"
    using pow2_add [of e 53] by simp
  finally have "a / 2 powi e < 2 ^ 53"
    by (simp add: pos_divide_less_eq)
  moreover have "of_int (roundHalfEven (a / 2 powi e)) \<le> a / 2 powi e + 1 / 2"
    using roundHalfEven_error [of "a / 2 powi e"] by linarith
  ultimately have "(of_int (roundHalfEven (a / 2 powi e)) :: rat) < 2 ^ 53 + 1 / 2"
    by linarith
  then have "(of_int (roundHalfEven (a / 2 powi e)) :: rat) < of_int (2 ^ 53 + 1)"
    by simp
  then have "roundHalfEven (a / 2 powi e) < 2 ^ 53 + 1"
    by (simp only: of_int_less_iff)
  then show ?thesis
    unfolding e_def by simp
qed

lemma binary64_idem_pos:
  assumes "0 < a"
  shows "binary64 (binary64 a) = binary64 a"
proof -
  define e where "e = exponent64 a"
  define m where "m = roundHalfEven (a / 2 powi e)"
  have b: "binary64 a = of_int m * 2 powi e"
    unfolding m_def e_def by (rule binary64_pos_def [OF assms])
  have m0: "0 \<le> m"
    unfolding m_def using assms by (intro roundHalfEven_nonneg) simp
  have m53: "m \<le> 2 ^ 53"
    unfolding m_def e_def by (rule binary64_mantissa_bound [OF assms])
  have e: "- 1074 \<le> e"
    unfolding e_def by (rule exponent64_ge)
  show ?thesis
  proof (cases "m = 2 ^ 53")
    case True
    have "(of_int m :: rat) * 2 powi e = of_int (2 ^ 52) * 2 powi (e + 1)"
      unfolding True using pow2_add [of e 1] by simp
    moreover have "binary64 (of_int (2 ^ 52) * 2 powi (e + 1)) = of_int (2 ^ 52) * 2 powi (e + 1)"
      using e by (intro binary64_exact) simp_all
    ultimately show ?thesis
      unfolding b by simp
  next
    case False
    then have "\<bar>m\<bar> < 2 ^ 53"
      using m0 m53 by simp
    then show ?thesis
      unfolding b using e by (intro binary64_exact)
  qed
qed

lemma binary64_idem: "binary64 (binary64 r) = binary64 r"
proof -
  consider "r = 0" | "0 < r" | "r < 0" by linarith
  then show ?thesis
  proof cases
    case 1
    then show ?thesis by simp
  next
    case 2
    then show ?thesis by (rule binary64_idem_pos)
  next
    case 3
    then have "binary64 (binary64 (- r)) = binary64 (- r)"
      by (intro binary64_idem_pos) simp
    then show ?thesis
      by (simp add: binary64_minus)
  qed
qed

lemma binary64_grid_4_8:
  assumes "binary64 w = w" and "4 \<le> w" and "w < 8"
  shows "\<exists>m. w = of_int m / 2 ^ 50"
proof -
  have pos: "0 < w" using assms(2) by linarith
  have "floorLog2 w = 2"
    using assms(2,3) by (intro floorLog2_unique) simp_all
  then have e: "exponent64 w = - 50"
    by (simp add: exponent64_def)
  have "w = of_int (roundHalfEven (w / 2 powi (- 50))) * 2 powi (- 50)"
    using binary64_pos_def [OF pos] assms(1) unfolding e by simp
  then have "w = of_int (roundHalfEven (w / 2 powi (- 50))) / 2 ^ 50"
    by (simp add: power_int_minus_divide)
  then show ?thesis by blast
qed

lemma grid_int_equiv:
  fixes n :: int
  shows "n * 512 < 5764607523034235 \<longleftrightarrow> n * 100 < 1125899906842624"
proof -
  have 1: "n * 512 < 5764607523034235 \<longleftrightarrow> n \<le> 11258999068426"
    by linarith
  have 2: "n * 100 < 1125899906842624 \<longleftrightarrow> n \<le> 11258999068426"
    by linarith
  show ?thesis unfolding 1 2 ..
qed

lemma hundredth_on_grid:
  fixes j :: int
  shows "(\<bar>of_int j / 2 ^ 50\<bar> :: rat) < 5764607523034235 / 576460752303423488
         \<longleftrightarrow> (\<bar>of_int j / 2 ^ 50\<bar> :: rat) < 1 / 100"
proof -
  define n where "n = \<bar>j\<bar>"
  have a: "(\<bar>of_int j / 2 ^ 50\<bar> :: rat) = of_int n / 1125899906842624"
    by (simp add: n_def)
  have l: "(of_int n / 1125899906842624 :: rat) < 5764607523034235 / 576460752303423488
           \<longleftrightarrow> (of_int (n * 512) :: rat) < of_int 5764607523034235"
    by (simp add: mult.commute)
  have r: "(of_int n / 1125899906842624 :: rat) < 1 / 100
           \<longleftrightarrow> (of_int (n * 100) :: rat) < of_int 1125899906842624"
    by (simp add: mult.commute)
  show ?thesis
    unfolding a l r of_int_less_iff by (rule grid_int_equiv)
qed

subsection \<open>Finite results\<close>

lemma threshold_powi: "(of_int (2 ^ 1024 - 2 ^ 970) :: rat) = 2 powi 1024 - 2 powi 970"
  by simp

lemma pow2_970:
  "(2::rat) powi 971 = 2 * 2 powi 970" "(2::rat) powi 1023 = 2 ^ 53 * 2 powi 970"
  "(2::rat) powi 1024 = 2 ^ 54 * 2 powi 970"
  using pow2_add [of 970 1] pow2_add [of 970 53] pow2_add [of 970 54] by simp_all

lemma binary64_bounded_pos:
  assumes "0 < a" and "a < 2 powi 1024 - 2 powi 970"
  shows "binary64 a < 2 powi 1024 - 2 powi 970"
proof -
  define P :: rat where "P = 2 powi 970"
  define e where "e = exponent64 a"
  define m where "m = roundHalfEven (a / 2 powi e)"
  have P: "0 < P"
    unfolding P_def by simp
  have b: "binary64 a = of_int m * 2 powi e"
    unfolding m_def e_def by (rule binary64_pos_def [OF assms(1)])
  have m53: "m \<le> 2 ^ 53"
    unfolding m_def e_def by (rule binary64_mantissa_bound [OF assms(1)])
  have "a < 2 powi 1024"
    using assms(2) pow2_pos [of 970] by linarith
  then have "2 powi (floorLog2 a) < (2::rat) powi 1024"
    using floorLog2_bounds(1) [OF assms(1)] by linarith
  then have "floorLog2 a < 1024"
    by (rule pow2_less_cancel)
  then have e971: "e \<le> 971"
    unfolding e_def exponent64_def by simp
  show ?thesis
  proof (cases "e \<le> 970")
    case True
    then have "(2::rat) powi e \<le> P"
      unfolding P_def by (rule pow2_mono)
    moreover have "(of_int m :: rat) \<le> 2 ^ 53"
      using m53 by (metis of_int_le_iff of_int_numeral of_int_power)
    moreover have "(0::rat) \<le> 2 powi e"
      by simp
    ultimately have "of_int m * 2 powi e \<le> 2 ^ 53 * P"
      by (intro mult_mono) simp_all
    moreover have "2 ^ 53 * P < 2 ^ 54 * P - P"
      using P by simp
    ultimately have "binary64 a < 2 ^ 54 * P - P"
      using b by linarith
    then show ?thesis
      unfolding pow2_970 P_def .
  next
    case False
    then have e: "e = 971"
      using e971 by simp
    have "a < (2 ^ 54 - 1) * P"
      using assms(2) pow2_970 unfolding P_def by (simp add: algebra_simps)
    then have "a / (2 * P) < (2 ^ 54 - 1) / 2"
      using P by (simp add: pos_divide_less_eq)
    then have "a / 2 powi e < 2 ^ 53 - 1 / 2"
      unfolding e P_def pow2_970 by simp
    moreover have "of_int m \<le> a / 2 powi e + 1 / 2"
      unfolding m_def using roundHalfEven_error [of "a / 2 powi e"] by linarith
    ultimately have "(of_int m :: rat) < 2 ^ 53"
      by linarith
    then have "m < 2 ^ 53"
      by simp
    then have "m \<le> 2 ^ 53 - 1"
      by simp
    then have "(of_int m :: rat) \<le> of_int (2 ^ 53 - 1)"
      by (simp only: of_int_le_iff)
    then have "(of_int m :: rat) * (2 * P) \<le> (2 ^ 53 - 1) * (2 * P)"
      using P by (intro mult_right_mono) simp_all
    then show ?thesis
      using b P unfolding e pow2_970 P_def by (simp add: algebra_simps)
  qed
qed

lemma binary64_nonneg:
  assumes "0 < a"
  shows "0 \<le> binary64 a"
  unfolding binary64_pos_def [OF assms]
  using roundHalfEven_nonneg [of "a / 2 powi exponent64 a"] assms
  by (intro mult_nonneg_nonneg) simp_all

lemma binary64_abs: "binary64 \<bar>r\<bar> = \<bar>binary64 r\<bar>"
proof -
  consider "r = 0" | "0 < r" | "0 < - r"
    by linarith
  then show ?thesis
  proof cases
    case 1
    then show ?thesis
      by simp
  next
    case 2
    then show ?thesis
      using binary64_nonneg [OF 2] by simp
  next
    case 3
    then have "\<bar>r\<bar> = - r"
      by simp
    then show ?thesis
      using binary64_nonneg [OF 3] binary64_minus [of r] by simp
  qed
qed

lemma binary64_bounded:
  assumes "\<bar>r\<bar> < 2 powi 1024 - 2 powi 970"
  shows "\<bar>binary64 r\<bar> < 2 powi 1024 - 2 powi 970"
proof -
  consider "r = 0" | "0 < r" | "r < 0"
    by linarith
  then show ?thesis
  proof cases
    case 1
    then show ?thesis
      using assms by simp
  next
    case 2
    then show ?thesis
      using binary64_bounded_pos [OF 2] binary64_nonneg [OF 2] assms by simp
  next
    case 3
    then have p: "0 < - r"
      by simp
    show ?thesis
      using binary64_bounded_pos [OF p] binary64_nonneg [OF p] assms 3 binary64_minus [of r]
      by simp
  qed
qed

lemma toBinary64_Fin_iff:
  "toBinary64 r = Fin w \<longleftrightarrow> \<bar>r\<bar> < 2 powi 1024 - 2 powi 970 \<and> w = binary64 r"
  unfolding toBinary64_def threshold_powi by auto

lemma toBinary64_Fin: "\<bar>r\<bar> < 2 powi 1024 - 2 powi 970 \<Longrightarrow> toBinary64 r = Fin (binary64 r)"
  by (simp add: toBinary64_Fin_iff)

lemma toBinary64_0 [simp]: "toBinary64 0 = Fin 0"
  by (simp add: toBinary64_Fin_iff)

lemma toBinary64_idem:
  assumes "toBinary64 r = Fin w"
  shows "toBinary64 w = Fin w"
  using assms binary64_bounded [of r] binary64_idem [of r] by (simp add: toBinary64_Fin_iff)

lemma js_neg_toBinary64: "js_neg (toBinary64 r) = toBinary64 (- r)"
  unfolding toBinary64_def by (simp add: binary64_minus)

lemma toBinary64_neg:
  assumes "toBinary64 w = Fin w"
  shows "toBinary64 (- w) = Fin (- w)"
  using js_neg_toBinary64 [of w] assms by simp

lemma binary64_fixed_ge:
  assumes "binary64 t = t" and "0 < t"
  shows "2 powi (- 1074) \<le> t"
proof -
  define e where "e = exponent64 t"
  define m where "m = roundHalfEven (t / 2 powi e)"
  have t: "t = of_int m * 2 powi e"
    unfolding m_def e_def using binary64_pos_def [OF assms(2)] assms(1) by simp
  have "0 < of_int m * (2::rat) powi e"
    using assms(2) t by simp
  then have "0 < (of_int m :: rat)"
    by (rule zero_less_mult_pos2) simp
  then have "1 \<le> m"
    by simp
  then have "(1::rat) \<le> of_int m"
    by simp
  then have "1 * 2 powi e \<le> of_int m * (2::rat) powi e"
    by (intro mult_right_mono) simp_all
  then have "2 powi e \<le> of_int m * (2::rat) powi e"
    by (simp only: mult_1)
  moreover have "(2::rat) powi (- 1074) \<le> 2 powi e"
    unfolding e_def by (rule pow2_mono) (rule exponent64_ge)
  ultimately show ?thesis
    using t by linarith
qed

text \<open>
  A positive finite number divided by a number between \<open>1\<close> and \<open>2\<close> is positive and
  finite: the quotient is below the dividend, and above half of the least positive
  number.
\<close>

lemma js_div_positive_finite:
  assumes "toBinary64 t = Fin t" and "0 < t" and "1 < k" and "k < 2"
  shows "\<exists>q. js_div (Fin t) (Fin k) = Fin q \<and> 0 < q"
proof -
  have fx: "\<bar>t\<bar> < 2 powi 1024 - 2 powi 970" "binary64 t = t"
    using assms(1) by (simp_all add: toBinary64_Fin_iff)
  have k: "0 < k"
    using assms(3) by simp
  have "t / k < t"
    using assms(2,3) k by (simp add: pos_divide_less_eq)
  then have "\<bar>t / k\<bar> < 2 powi 1024 - 2 powi 970"
    using fx(1) assms(2) k by simp
  then have d: "js_div (Fin t) (Fin k) = Fin (binary64 (t / k))"
    using k by (simp add: toBinary64_Fin)
  have "t / 2 < t / k"
    using assms(2,4) k by (intro divide_strict_left_mono) simp_all
  moreover have "(2::rat) powi (- 1075) = 2 powi (- 1074) / 2"
    using pow2_diff [of "- 1074" 1] by simp
  ultimately have "2 powi (- 1075) < t / k"
    using binary64_fixed_ge [OF fx(2) assms(2)] by linarith
  then have "0 < binary64 (t / k)"
    by (rule binary64_positive)
  then show ?thesis
    using d by simp
qed

subsection \<open>The constants of the width coefficient\<close>

lemma literal_hundredth: "literal (1 / 100) = Fin (5764607523034235 / 576460752303423488)"
  by code_simp

lemma literal_14: "literal (14 / 10) = Fin (3152519739159347 / 2251799813685248)"
  by code_simp

lemma literal_12: "literal (12 / 10) = Fin (5404319552844595 / 4503599627370496)"
  by code_simp

text \<open>
  The test \<open>Math.abs(w - c) < 0.01\<close> for \<open>c\<close> either \<open>6\<close> or \<open>7\<close>. Near \<open>c\<close> the
  numbers are the multiples of \<open>2^-50\<close>, their difference to \<open>c\<close> is computed without
  error, and no multiple of \<open>2^-50\<close> lies between \<open>0.01\<close> and the binary64 number that
  the literal \<open>0.01\<close> denotes. So the test decides whether \<open>w\<close> is less than one
  hundredth away from \<open>c\<close>.
\<close>

lemma near_core:
  assumes "\<bar>d\<bar> < 1 / 50 \<Longrightarrow> \<exists>j. d = of_int j / 2 ^ 50"
  shows "js_lt (Math_abs (toBinary64 d)) (literal (1 / 100)) \<longleftrightarrow> \<bar>d\<bar> < 1 / 100"
proof (cases "\<bar>d\<bar> < 1 / 50")
  case True
  then obtain j :: int where j: "d = of_int j / 2 ^ 50"
    using assms by blast
  have "\<bar>of_int j :: rat\<bar> < 2 ^ 50 / 50"
    using True unfolding j by (simp add: abs_divide pos_divide_less_eq)
  then have "\<bar>of_int j :: rat\<bar> < 2 ^ 53"
    by simp
  then have "(of_int \<bar>j\<bar> :: rat) < of_int (2 ^ 53)"
    by simp
  then have j53: "\<bar>j\<bar> < 2 ^ 53"
    by (simp only: of_int_less_iff)
  have p: "d = of_int j * 2 powi (- 50)"
    unfolding j by (simp add: power_int_minus field_simps)
  have ex: "binary64 d = d"
    unfolding p by (rule binary64_exact [OF j53]) simp
  have "\<bar>d\<bar> < 2 powi 1024 - 2 powi 970"
  proof -
    have "(2::rat) powi 0 \<le> 2 powi 970"
      by (rule pow2_mono) simp
    then have "(1::rat) \<le> 2 powi 970"
      by simp
    moreover have "2 * 2 powi 970 \<le> 2 ^ 54 * (2::rat) powi 970"
      by simp
    ultimately show ?thesis
      using True unfolding pow2_970 by linarith
  qed
  then have "toBinary64 d = Fin d"
    using ex by (simp add: toBinary64_Fin)
  then show ?thesis
    unfolding literal_hundredth using hundredth_on_grid [of j] by (simp add: j)
next
  case False
  define a where "a = \<bar>d\<bar>"
  have a: "1 / 50 \<le> a"
    using False by (simp add: a_def)
  have "(2::rat) powi (- 1022) \<le> 2 powi (- 6)"
    by (rule pow2_mono) simp
  also have "\<dots> \<le> 1 / 50"
    by (simp add: power_int_minus)
  finally have n: "2 powi (- 1022) \<le> a"
    using a by linarith
  have "\<bar>binary64 a - a\<bar> \<le> a / 2 ^ 53"
    by (rule binary64_relative_error [OF n])
  then have "\<bar>binary64 a - a\<bar> \<le> a / 9007199254740992"
    by simp
  then have big: "5764607523034235 / 576460752303423488 \<le> binary64 a"
    using a by linarith
  have "binary64 a = \<bar>binary64 d\<bar>"
    unfolding a_def by (rule binary64_abs)
  then have "\<not> js_lt (Math_abs (toBinary64 d)) (literal (1 / 100))"
    unfolding literal_hundredth toBinary64_def using big by simp
  then show ?thesis
    using False by simp
qed

lemma near_test:
  assumes "binary64 w = w" and "c = 6 \<or> c = 7"
  shows "js_lt (Math_abs (js_sub (Fin w) (Fin c))) (literal (1 / 100)) \<longleftrightarrow> \<bar>w - c\<bar> < 1 / 100"
proof (cases "w = 0")
  case True
  then show ?thesis
    using assms(2) unfolding literal_hundredth js_sub_def by auto
next
  case False
  have "\<exists>j. w - c = of_int j / 2 ^ 50" if "\<bar>w - c\<bar> < 1 / 50"
  proof -
    have "4 \<le> w" "w < 8"
      using that assms(2) by linarith+
    then obtain m :: int where m: "w = of_int m / 2 ^ 50"
      using binary64_grid_4_8 [OF assms(1)] by blast
    obtain i :: int where i: "c = of_int i"
      using assms(2) by (metis of_int_numeral)
    have "w - c = of_int (m - i * 2 ^ 50) / 2 ^ 50"
      unfolding m i by (simp add: field_simps)
    then show ?thesis
      by blast
  qed
  then have "js_lt (Math_abs (toBinary64 (w - c))) (literal (1 / 100)) \<longleftrightarrow> \<bar>w - c\<bar> < 1 / 100"
    by (rule near_core)
  moreover have "js_sub (Fin w) (Fin c) = toBinary64 (w - c)"
    using False assms(2) unfolding js_sub_def by auto
  ultimately show ?thesis
    by simp
qed

section \<open>Basic facts\<close>

lemma numOr0_Fin: "\<exists>t. numOr0 v = Fin t"
  by (cases "ToNumber v") (simp_all add: numOr0_def)

lemma js_le_Fin [simp]: "js_le (Fin a) (Fin b) = (a \<le> b)"
  by (simp add: js_le_def not_less)

lemma coeffByWidth_range:
  "coeffByWidth w = literal (14 / 10) \<or> coeffByWidth w = literal (12 / 10)"
  by (simp add: coeffByWidth_def Let_def)

lemma rowKm_cases:
  assumes "tripKm r = Some kt" and "tripTons r = Some tv"
  shows "rowKm r =
     (if routeSel r = None \<or> routeSel r = Some '''' then Blank
      else case numOr0 (JStr tv) of
        Fin t \<Rightarrow>
          if t \<le> 0 then Blank
          else if Number_isFinite (rowMaxLen r)
                  \<and> js_gt (js_div (Fin t) (coeffByWidth (JNum (getRowWidth r)))) (rowMaxLen r)
               then Km (rowMaxLen r)
               else Km (js_div (Fin t) (coeffByWidth (JNum (getRowWidth r))))
      | _ \<Rightarrow> Blank)"
proof -
  obtain t where t: "numOr0 (JStr tv) = Fin t"
    using numOr0_Fin by blast
  show ?thesis
    using assms t by (simp add: rowKm_def Let_def)
qed

subsection \<open>The numbers read from text are binary64 numbers\<close>

lemma StrUnsignedDecimalLiteral_representable:
  assumes "StrUnsignedDecimalLiteral s = Fin w"
  shows "toBinary64 w = Fin w"
proof -
  obtain r where "toBinary64 r = Fin w"
    using assms unfolding StrUnsignedDecimalLiteral_def Let_def
    by (auto split: if_splits option.splits)
  then show ?thesis
    by (rule toBinary64_idem)
qed

lemma StrDecimalLiteral_representable:
  assumes "StrDecimalLiteral s = Fin w"
  shows "toBinary64 w = Fin w"
proof (cases s)
  case Nil
  then show ?thesis
    using assms by (simp add: StrDecimalLiteral_def)
next
  case (Cons c r)
  show ?thesis
  proof (cases "c = CHR ''-''")
    case True
    then have "js_neg (StrUnsignedDecimalLiteral r) = Fin w"
      using assms Cons by (simp add: StrDecimalLiteral_def)
    then have "StrUnsignedDecimalLiteral r = Fin (- w)"
      by (cases "StrUnsignedDecimalLiteral r") auto
    then have "toBinary64 (- w) = Fin (- w)"
      by (rule StrUnsignedDecimalLiteral_representable)
    then show ?thesis
      using toBinary64_neg [of "- w"] by simp
  next
    case False
    then have "StrUnsignedDecimalLiteral r = Fin w \<or> StrUnsignedDecimalLiteral s = Fin w"
      using assms Cons by (auto simp: StrDecimalLiteral_def split: if_splits)
    then show ?thesis
      using StrUnsignedDecimalLiteral_representable by blast
  qed
qed

lemma StringToNumber_representable:
  assumes "StringToNumber s = Fin w"
  shows "toBinary64 w = Fin w"
proof (cases "trim s = []")
  case True
  then show ?thesis
    using assms by (simp add: StringToNumber_def)
next
  case False
  show ?thesis
  proof (cases "NonDecimalIntegerLiteral (trim s)")
    case None
    then show ?thesis
      using assms False StrDecimalLiteral_representable [of "trim s" w]
      by (simp add: StringToNumber_def)
  next
    case (Some n)
    then have "toBinary64 (of_nat n) = Fin w"
      using assms False by (simp add: StringToNumber_def)
    then show ?thesis
      by (rule toBinary64_idem)
  qed
qed

lemma numOr0_representable:
  assumes "numOr0 (JStr s) = Fin t"
  shows "toBinary64 t = Fin t"
proof (cases "StringToNumber s")
  case (Fin w)
  then show ?thesis
    using assms StringToNumber_representable [of s w] by (simp add: numOr0_def)
qed (use assms in \<open>auto simp: numOr0_def\<close>)

lemma getRowWidth_roadWidth:
  "getRowWidth r = (case roadWidth r of Some w \<Rightarrow> Fin w | None \<Rightarrow> NaN)"
  by (simp add: getRowWidth_def roadWidth_def Let_def split: option.splits jsnum.splits)

lemma roadWidth_representable:
  assumes "roadWidth r = Some w"
  shows "binary64 w = w"
proof -
  obtain s where "StringToNumber s = Fin w"
    using assms unfolding roadWidth_def by (auto split: option.splits jsnum.splits)
  then have "toBinary64 w = Fin w"
    by (rule StringToNumber_representable)
  then show ?thesis
    by (simp add: toBinary64_Fin_iff)
qed

text \<open>The coefficient of a row is the one the specification gives for its road width.\<close>

lemma coeffByWidth_row:
  "coeffByWidth (JNum (getRowWidth r)) = literal (spec_widthCoefficient (roadWidth r))"
proof (cases "roadWidth r")
  case None
  then show ?thesis
    by (simp add: getRowWidth_roadWidth coeffByWidth_def spec_widthCoefficient_def js_sub_def)
next
  case (Some w)
  have b: "binary64 w = w"
    using Some by (rule roadWidth_representable)
  show ?thesis
    unfolding getRowWidth_roadWidth Some coeffByWidth_def spec_widthCoefficient_def Let_def
    using near_test [OF b, of 7] near_test [OF b, of 6] by simp
qed

lemma coefficient_bounds:
  assumes "coeffByWidth w = Fin k"
  shows "1 < k" and "k < 2"
  using assms coeffByWidth_range [of w] unfolding literal_14 literal_12 by auto

lemma rowKm_positive_finite:
  assumes "toBinary64 t = Fin t" and "0 < t"
  shows "\<exists>q. js_div (Fin t) (coeffByWidth w) = Fin q \<and> 0 < q"
proof -
  obtain k where k: "coeffByWidth w = Fin k"
    using coeffByWidth_range [of w] unfolding literal_14 literal_12 by blast
  show ?thesis
    unfolding k using assms coefficient_bounds [OF k] by (rule js_div_positive_finite)
qed

section \<open>Row calculation: the width coefficient\<close>

text \<open>
  C1. For a row with a distance cell, a tonnage input, a selected route and a tonnage
  \<open>t > 0\<close>, the coefficient \<open>k\<close> that \<open>recalcRowKm\<close> computes is the one the
  specification gives for the road width in the row's width cell: \<open>1.4\<close> when the width
  is within \<open>0.01\<close> of \<open>7\<close>, \<open>1.2\<close> when it is within \<open>0.01\<close> of \<open>6\<close>, and \<open>1.2\<close> for
  every other width, also when the row has no width cell or its text is no number. The
  coefficient is the binary64 number of the literal, and the distance is the binary64
  quotient \<open>t / k\<close>, capped by the number in the length cell.
\<close>

theorem row_coefficient_by_width:
  assumes "tripKm r = Some kt" and "tripTons r = Some tv"
    and "routeSel r = Some name" and "name \<noteq> ''''"
    and "numOr0 (JStr tv) = Fin t" and "0 < t"
  shows "coeffByWidth (JNum (getRowWidth r)) = literal (spec_widthCoefficient (roadWidth r))
       \<and> rowKm r =
           (if Number_isFinite (rowMaxLen r)
               \<and> js_gt (js_div (Fin t) (literal (spec_widthCoefficient (roadWidth r)))) (rowMaxLen r)
            then Km (rowMaxLen r)
            else Km (js_div (Fin t) (literal (spec_widthCoefficient (roadWidth r)))))"
  using assms by (simp add: rowKm_cases coeffByWidth_row)

theorem row_coefficient_by_width_witness:
  "roadWidth exampleRow = Some 7
   \<and> coeffByWidth (JNum (getRowWidth exampleRow)) = literal (14 / 10)
   \<and> rowKm exampleRow = Km (Fin 10)
   \<and> roadWidth rowOfWidth701 = Some (3946279173483397 / 562949953421312)
   \<and> coeffByWidth (JNum (getRowWidth rowOfWidth701)) = literal (14 / 10)
   \<and> rowKm rowOfWidth701 = Km (Fin (8042142191733029 / 2251799813685248))
   \<and> roadWidth rowWithoutWidth = None
   \<and> coeffByWidth (JNum (getRowWidth rowWithoutWidth)) = literal (12 / 10)
   \<and> rowKm rowWithoutWidth = Km (Fin 10)"
proof -
  have f1: "tripKm exampleRow = Some ''''" "tripTons exampleRow = Some ''20''"
    "routeSel exampleRow = Some ''R1''"
    by (simp_all add: exampleRow_def)
  have f2: "tripKm rowOfWidth701 = Some ''''" "tripTons rowOfWidth701 = Some ''5''"
    "routeSel rowOfWidth701 = Some ''R1''"
    by (simp_all add: rowOfWidth701_def exampleRow_def)
  have f3: "tripKm rowWithoutWidth = Some ''''" "tripTons rowWithoutWidth = Some ''20''"
    "routeSel rowWithoutWidth = Some ''R1''"
    by (simp_all add: rowWithoutWidth_def exampleRow_def)
  have ne: "''R1'' \<noteq> ''''"
    by simp
  have n: "numOr0 (JStr ''20'') = Fin 20" "numOr0 (JStr ''5'') = Fin 5"
    by code_simp+
  have pos: "(0::rat) < 20" "(0::rat) < 5"
    by simp_all
  have w: "roadWidth exampleRow = Some 7"
    "roadWidth rowOfWidth701 = Some (3946279173483397 / 562949953421312)"
    "roadWidth rowWithoutWidth = None"
    by code_simp+
  have c: "spec_widthCoefficient (Some 7) = 14 / 10"
    "spec_widthCoefficient (Some (3946279173483397 / 562949953421312)) = 14 / 10"
    "spec_widthCoefficient None = 12 / 10"
    by (simp_all add: spec_widthCoefficient_def)
  have l: "rowMaxLen exampleRow = Fin 10" "rowMaxLen rowOfWidth701 = Fin 10"
    "rowMaxLen rowWithoutWidth = Fin 10"
    by code_simp+
  have q: "js_div (Fin 20) (literal (14 / 10)) = Fin (8042142191733029 / 562949953421312)"
    "js_div (Fin 5) (literal (14 / 10)) = Fin (8042142191733029 / 2251799813685248)"
    "js_div (Fin 20) (literal (12 / 10)) = Fin (4691249611844267 / 281474976710656)"
    by code_simp+
  have "coeffByWidth (JNum (getRowWidth exampleRow)) = literal (14 / 10)
        \<and> rowKm exampleRow = Km (Fin 10)"
    using row_coefficient_by_width [OF f1 ne n(1) pos(1)]
    unfolding w c l q by (simp add: js_gt_def)
  moreover have "coeffByWidth (JNum (getRowWidth rowOfWidth701)) = literal (14 / 10)
        \<and> rowKm rowOfWidth701 = Km (Fin (8042142191733029 / 2251799813685248))"
    using row_coefficient_by_width [OF f2 ne n(2) pos(2)]
    unfolding w c l q by (simp add: js_gt_def)
  moreover have "coeffByWidth (JNum (getRowWidth rowWithoutWidth)) = literal (12 / 10)
        \<and> rowKm rowWithoutWidth = Km (Fin 10)"
    using row_coefficient_by_width [OF f3 ne n(1) pos(1)]
    unfolding w c l q by (simp add: js_gt_def)
  ultimately show ?thesis
    using w by simp
qed

section \<open>Row calculation: no route or no tonnage\<close>

text \<open>
  C3. For a row with a distance cell and a tonnage input: if no route is selected, or
  the tonnage is \<open>0\<close> or less, \<open>recalcRowKm\<close> computes no distance and leaves the distance
  cell empty; the cell does not show the text of a zero.
\<close>

theorem blank_without_route_or_tonnage:
  assumes "tripKm r = Some kt" and "tripTons r = Some tv"
    and "routeSel r = None \<or> routeSel r = Some '''' \<or> js_le (numOr0 (JStr tv)) (Fin 0)"
  shows "rowKm r = Blank \<and> tripKm (recalcRowKm numToString r) = Some ''''
         \<and> tripKm (recalcRowKm numToString r) \<noteq> Some (fmt2 numToString (JNum (Fin 0)))"
proof -
  obtain t where t: "numOr0 (JStr tv) = Fin t"
    using numOr0_Fin by blast
  have b: "rowKm r = Blank"
    using assms t by (auto simp: rowKm_cases)
  have z: "fmt2 numToString (JNum (Fin 0)) = ''0,00''"
    by code_simp
  show ?thesis
    using b z by (simp add: recalcRowKm_def)
qed

theorem blank_without_route_or_tonnage_witness:
  "js_le (numOr0 (JStr ''-5'')) (Fin 0)
   \<and> rowKm (exampleRow\<lparr>tripTons := Some ''-5''\<rparr>) = Blank
   \<and> tripKm (recalcRowKm stubNumToString (exampleRow\<lparr>tripTons := Some ''-5''\<rparr>)) = Some ''''
   \<and> rowKm (exampleRow\<lparr>routeSel := Some ''''\<rparr>) = Blank"
proof -
  have n: "js_le (numOr0 (JStr ''-5'')) (Fin 0)" by code_simp
  show ?thesis
    using n
      blank_without_route_or_tonnage
        [of "exampleRow\<lparr>tripTons := Some ''-5''\<rparr>" "''''" "''-5''" stubNumToString]
      blank_without_route_or_tonnage
        [of "exampleRow\<lparr>routeSel := Some ''''\<rparr>" "''''" "''20''" stubNumToString]
    by (simp add: exampleRow_def)
qed

section \<open>Row calculation: the coefficient is never zero\<close>

text \<open>
  C10. For every width value, also \<open>NaN\<close>, \<open>undefined\<close> and text that is no number,
  \<open>coeffByWidth\<close> returns \<open>1.4\<close> or \<open>1.2\<close>, a positive number; so for every finite tonnage
  \<open>t > 0\<close> the division \<open>t / k\<close> of the row calculation does not divide by zero and gives a
  finite, positive number. The tonnage is a finite binary64 number, one that rounding
  leaves as it is: the quotient is below \<open>t\<close>, so it is finite, and it is above half of
  the least positive binary64 number, so it does not round to zero.
\<close>

theorem coeffByWidth_divides:
  assumes "toBinary64 t = Fin t" and "0 < t"
  shows "(coeffByWidth w = literal (14 / 10) \<or> coeffByWidth w = literal (12 / 10))
         \<and> js_lt (Fin 0) (coeffByWidth w)
         \<and> Number_isFinite (js_div (Fin t) (coeffByWidth w))
         \<and> js_lt (Fin 0) (js_div (Fin t) (coeffByWidth w))"
proof -
  obtain k where k: "coeffByWidth w = Fin k"
    using coeffByWidth_range [of w] unfolding literal_14 literal_12 by blast
  obtain q where q: "js_div (Fin t) (coeffByWidth w) = Fin q" "0 < q"
    using rowKm_positive_finite [OF assms] by blast
  show ?thesis
    using coeffByWidth_range [of w] coefficient_bounds [OF k] k q by simp
qed

theorem coeffByWidth_divides_witness:
  "toBinary64 20 = Fin 20 \<and> (0::rat) < 20
   \<and> coeffByWidth (JStr ''abc'') = literal (12 / 10)
   \<and> Number_isFinite (js_div (Fin 20) (coeffByWidth (JStr ''abc'')))
   \<and> js_div (Fin 20) (coeffByWidth (JStr ''abc'')) = Fin (4691249611844267 / 281474976710656)
   \<and> js_lt (Fin 0) (js_div (Fin 20) (coeffByWidth (JStr ''abc'')))"
proof -
  have b: "toBinary64 20 = Fin 20" by code_simp
  have pos: "(0::rat) < 20" by simp
  have k: "coeffByWidth (JStr ''abc'') = literal (12 / 10)" by code_simp
  have q: "js_div (Fin 20) (literal (12 / 10)) = Fin (4691249611844267 / 281474976710656)"
    by code_simp
  from coeffByWidth_divides [OF b pos, of "JStr ''abc''"] k q b pos show ?thesis by simp
qed

section \<open>Row calculation: the cap at the road length\<close>

lemma rowWithoutLength_eq:
  "rowWithoutLength =
     \<lparr> routeSel = Some ''R1'', tripKm = Some ''0,00'', tripTons = Some ''12'',
       jsWidth = Some ''6,0'', jsLength = Some '''', jsTons = Some '''' \<rparr>"
  by code_simp

text \<open>
  C2. The specification has no cap when the road length is missing. In the code a route
  without \<open>road_length_km\<close> leaves the length cell empty, \<open>Number\<close> of the empty text is
  \<open>0\<close>, which is finite, and the distance \<open>12 / 1.2 = 10\<close> is capped to \<open>0\<close>: the cell
  shows \<open>0,00\<close>.
\<close>

theorem missing_length_caps_at_zero:
  "Number_isNaN (ToNumber (road_length_km (the (Map_get (loadRoutes routesResponse) (JStr ''R1'')))))
   \<and> jsLength rowWithoutLength = Some ''''
   \<and> rowMaxLen rowWithoutLength = Fin 0
   \<and> js_div (numOr0 (JStr ''12'')) (coeffByWidth (JNum (getRowWidth rowWithoutLength))) = Fin 10
   \<and> rowKm rowWithoutLength = Km (Fin 0)
   \<and> tripKm rowWithoutLength = Some ''0,00''"
  by code_simp

section \<open>Totals: the tonnage sum\<close>

lemma numOr0_deliveredTonnage:
  "numOr0 (case tripTons r of Some v \<Rightarrow> JStr v | None \<Rightarrow> JUndefined) = Fin (deliveredTonnage r)"
  by (simp add: numOr0_def deliveredTonnage_def split: option.splits jsnum.splits)

lemma js_add_zero: "js_add s (Fin 0) = s"
  by (cases s) simp_all

lemma foldl_js_add_nonzero:
  "foldl (\<lambda>s x. js_add s (Fin x)) a (filter (\<lambda>t. t \<noteq> 0) xs) = foldl (\<lambda>s x. js_add s (Fin x)) a xs"
  by (induction xs arbitrary: a) (simp_all add: js_add_zero)

lemma js_sum_nonzero: "js_sum (filter (\<lambda>t. t \<noteq> 0) xs) = js_sum xs"
  by (simp add: js_sum_def foldl_js_add_nonzero)

lemma tonsSum_js_sum: "tonsSum rows = js_sum (map deliveredTonnage rows)"
  by (simp add: tonsSum_def js_sum_def foldl_map numOr0_deliveredTonnage)

text \<open>
  C6, as the code has it. The tonnage sum is the sum over all rows, added from the first
  row to the last as binary64 numbers, of the number read from the row's tonnage input.
  A row without the input, or whose text is not a finite number, adds \<open>0\<close>, which leaves
  the sum as it is; every finite number is added as it is, a negative one too.
\<close>

theorem tonnage_sum_over_all_rows:
  "tonsSum rows = js_sum (map deliveredTonnage rows)
   \<and> tonsSum rows = js_sum (filter (\<lambda>t. t \<noteq> 0) (map deliveredTonnage rows))
   \<and> tonsSum (rows @ [r]) = js_add (tonsSum rows) (Fin (deliveredTonnage r))
   \<and> (\<forall>r. numOr0 (case tripTons r of Some v \<Rightarrow> JStr v | None \<Rightarrow> JUndefined)
            = Fin (deliveredTonnage r))"
proof (intro conjI allI)
  show "tonsSum rows = js_sum (map deliveredTonnage rows)"
    by (rule tonsSum_js_sum)
  show "tonsSum rows = js_sum (filter (\<lambda>t. t \<noteq> 0) (map deliveredTonnage rows))"
    by (simp only: tonsSum_js_sum js_sum_nonzero)
  show "tonsSum (rows @ [r]) = js_add (tonsSum rows) (Fin (deliveredTonnage r))"
    by (simp add: tonsSum_def numOr0_deliveredTonnage)
  show "numOr0 (case tripTons r of Some v \<Rightarrow> JStr v | None \<Rightarrow> JUndefined)
        = Fin (deliveredTonnage r)" for r
    by (rule numOr0_deliveredTonnage)
qed

text \<open>
  C6 as stated fails: a row with the tonnage \<open>-5\<close>, which is \<open>0\<close> or less, adds \<open>-5\<close> to
  the sum and not \<open>0\<close>.
\<close>

theorem negative_tonnage_counterexample:
  "js_le (numOr0 (JStr ''-5'')) (Fin 0)
   \<and> tonsSum [exampleRow\<lparr>tripTons := Some ''-5''\<rparr>] = Fin (- 5)
   \<and> tonsSum [exampleRow\<lparr>tripTons := Some ''-5''\<rparr>] \<noteq> Fin 0"
  by code_simp

section \<open>Totals: how a zero is shown\<close>

lemma fmt2_zero: "fmt2 numToString (JNum (Fin 0)) = ''0,00''"
  by code_simp

text \<open>
  C5, as the code has it. The vehicle tonnage, the trip count and the total tonnage of
  the vehicle block show the dash when they are zero. The tonnage sum and the distance
  sum of the table footer are always formatted: a zero shows as \<open>0,00\<close>.
\<close>

theorem zero_totals_display:
  "(getVehicleTonnage oidValue = Fin 0 \<longrightarrow>
      vehicle_tonnage_cell (recalcTotals numToString rows oidValue) = emDash)
   \<and> (tripsCount rows = 0 \<longrightarrow>
      trips_count_cell (recalcTotals numToString rows oidValue) = emDash)
   \<and> (tonsSum rows = Fin 0 \<longrightarrow>
      total_tons_cell (recalcTotals numToString rows oidValue) = emDash
      \<and> total_tons_sum_cell (recalcTotals numToString rows oidValue) = ''0,00'')
   \<and> (kmSum rows = Fin 0 \<longrightarrow>
      total_km_sum_cell (recalcTotals numToString rows oidValue) = ''0,00'')"
  by (simp add: recalcTotals_def Let_def fmt2_zero)

theorem zero_totals_display_witness:
  "getVehicleTonnage '''' = Fin 0 \<and> tripsCount [] = 0 \<and> tonsSum [] = Fin 0 \<and> kmSum [] = Fin 0
   \<and> vehicle_tonnage_cell (recalcTotals stubNumToString [] '''') = emDash
   \<and> trips_count_cell (recalcTotals stubNumToString [] '''') = emDash
   \<and> total_tons_cell (recalcTotals stubNumToString [] '''') = emDash
   \<and> total_tons_sum_cell (recalcTotals stubNumToString [] '''') = ''0,00''
   \<and> total_km_sum_cell (recalcTotals stubNumToString [] '''') = ''0,00''"
proof -
  have v: "getVehicleTonnage '''' = Fin 0" by code_simp
  have z: "tripsCount [] = 0" "tonsSum [] = Fin 0" "kmSum [] = Fin 0"
    by (simp_all add: tripsCount_def tonsSum_def kmSum_def)
  show ?thesis
    using zero_totals_display [of "''''" stubNumToString "[]"] v z by simp
qed

text \<open>
  C5 as stated fails: with no rows both sums are zero, and the two footer cells show
  \<open>0,00\<close>, not the dash.
\<close>

theorem zero_sums_counterexample:
  "kmSum [] = Fin 0 \<and> tonsSum [] = Fin 0
   \<and> total_km_sum_cell (recalcTotals stubNumToString [] '''') = ''0,00''
   \<and> total_tons_sum_cell (recalcTotals stubNumToString [] '''') = ''0,00''
   \<and> total_km_sum_cell (recalcTotals stubNumToString [] '''') \<noteq> emDash
   \<and> total_tons_sum_cell (recalcTotals stubNumToString [] '''') \<noteq> emDash"
  by code_simp

section \<open>Route catalog: order and duplicates\<close>

lemma loadRoutes_foldl:
  "propOf data ''routes'' = JArr entries \<Longrightarrow> loadRoutes data = foldl loadStep [] entries"
  by (simp add: loadRoutes_def optProp_def)

lemma loadStep_falsy: "\<not> ToBoolean (propOf r ''name'') \<Longrightarrow> loadStep m r = m"
  by (simp add: loadStep_def optProp_def)

lemma loadStep_truthy:
  "ToBoolean (propOf r ''name'') \<Longrightarrow> loadStep m r = Map_set m (propOf r ''name'') (routeParams r)"
  by (simp add: loadStep_def optProp_def routeParams_def)

lemma SameValueZero_primitive: "isPrimitive a \<Longrightarrow> SameValueZero a b = (a = b)"
  by (cases a) simp_all

lemma Map_set_keys:
  "\<forall>k'\<in>set (map fst m). isPrimitive k' \<Longrightarrow>
   map fst (Map_set m k v) = (if k \<in> set (map fst m) then map fst m else map fst m @ [k])"
  by (induction m) (force simp: SameValueZero_primitive)+

lemma Map_get_set:
  "\<forall>k'\<in>set (map fst m). isPrimitive k' \<Longrightarrow> isPrimitive k \<Longrightarrow>
   Map_get (Map_set m k v) k2 = (if k2 = k then Some v else Map_get m k2)"
  by (induction m) (auto simp: SameValueZero_primitive)

lemma firstOccurrences_snoc:
  "firstOccurrences (xs @ [x]) =
     (if x \<in> set xs then firstOccurrences xs else firstOccurrences xs @ [x])"
  by (simp add: firstOccurrences_def)

lemma set_firstOccurrences: "set (firstOccurrences xs) = set xs"
  by (simp add: firstOccurrences_def)

lemma namedEntries_snoc:
  "namedEntries (xs @ [r]) =
     namedEntries xs
     @ (if ToBoolean (propOf r ''name'') then [(propOf r ''name'', routeParams r)] else [])"
  by (simp add: namedEntries_def)

lemma foldl_loadStep:
  assumes "\<forall>r\<in>set entries. isPrimitive (propOf r ''name'')"
  shows "map fst (foldl loadStep [] entries) = firstOccurrences (map fst (namedEntries entries))
         \<and> (\<forall>k. Map_get (foldl loadStep [] entries) k = map_of (rev (namedEntries entries)) k)"
  using assms
proof (induction entries rule: rev_induct)
  case Nil
  show ?case by (simp add: namedEntries_def firstOccurrences_def)
next
  case (snoc r entries)
  let ?m = "foldl loadStep [] entries"
  have ih: "map fst ?m = firstOccurrences (map fst (namedEntries entries))"
    "\<And>k. Map_get ?m k = map_of (rev (namedEntries entries)) k"
    using snoc by simp_all
  have prim: "\<forall>k'\<in>set (map fst ?m). isPrimitive k'"
    using snoc.prems unfolding ih(1) set_firstOccurrences
    by (auto simp: namedEntries_def)
  have pr: "isPrimitive (propOf r ''name'')"
    using snoc.prems by simp
  show ?case
  proof (cases "ToBoolean (propOf r ''name'')")
    case False
    then show ?thesis
      using ih by (simp add: loadStep_falsy namedEntries_snoc)
  next
    case True
    have step: "foldl loadStep [] (entries @ [r]) = Map_set ?m (propOf r ''name'') (routeParams r)"
      using True by (simp add: loadStep_truthy)
    have keys: "map fst (foldl loadStep [] (entries @ [r]))
                = firstOccurrences (map fst (namedEntries (entries @ [r])))"
      unfolding step Map_set_keys [OF prim]
      using True ih(1)
      by (simp add: namedEntries_snoc firstOccurrences_snoc set_firstOccurrences)
    have gets: "\<forall>k. Map_get (foldl loadStep [] (entries @ [r])) k
                = map_of (rev (namedEntries (entries @ [r]))) k"
      unfolding step Map_get_set [OF prim pr]
      using True ih(2) by (simp add: namedEntries_snoc)
    show ?thesis using keys gets by blast
  qed
qed

text \<open>
  C4, as the code has it. When the catalog is rebuilt from a route list (whose names
  are text or missing), entries with an empty or missing name are skipped; the names of
  the catalog are the names of the other entries in the order received, each at the
  place of its first occurrence and not inserted again; and the parameters stored under
  a name are those of its last occurrence: a later entry replaces the earlier one.
\<close>

theorem catalog_order_and_values:
  assumes "propOf data ''routes'' = JArr entries"
    and "\<forall>r\<in>set entries. isPrimitive (propOf r ''name'')"
  shows "routeNames (loadRoutes data) = firstOccurrences (map fst (namedEntries entries))
         \<and> (\<forall>k. Map_get (loadRoutes data) k = map_of (rev (namedEntries entries)) k)"
  using foldl_loadStep [OF assms(2)] loadRoutes_foldl [OF assms(1)]
  by (simp add: routeNames_def)

theorem catalog_order_and_values_witness:
  "routeNames (loadRoutes duplicateRoutes) = [JStr ''A'', JStr ''B'']
   \<and> Map_get (loadRoutes duplicateRoutes) (JStr ''A'') =
       Some \<lparr> road_width_m = JNum (Fin 6), road_length_km = JNum (Fin 3),
              pss_tonnage_t = JUndefined \<rparr>
   \<and> Map_get (loadRoutes duplicateRoutes) (JStr '''') = None"
proof -
  have a: "propOf duplicateRoutes ''routes'' = JArr duplicateEntries"
    by (simp add: duplicateRoutes_def)
  have b: "\<forall>r\<in>set duplicateEntries. isPrimitive (propOf r ''name'')"
    by (simp add: duplicateEntries_def)
  have c: "firstOccurrences (map fst (namedEntries duplicateEntries)) = [JStr ''A'', JStr ''B'']"
    by code_simp
  have d: "map_of (rev (namedEntries duplicateEntries)) (JStr ''A'') =
             Some \<lparr> road_width_m = JNum (Fin 6), road_length_km = JNum (Fin 3),
                    pss_tonnage_t = JUndefined \<rparr>"
    by code_simp
  have e: "map_of (rev (namedEntries duplicateEntries)) (JStr '''') = None"
    by code_simp
  from catalog_order_and_values [OF a b] c d e show ?thesis by simp
qed

text \<open>
  C4 as stated fails: the name \<open>A\<close> comes first with width \<open>7\<close> and length \<open>10\<close> and
  later with width \<open>6\<close> and length \<open>3\<close>; the catalog then holds the later parameters
  under \<open>A\<close>, not the first ones.
\<close>

theorem first_occurrence_counterexample:
  "routeNames (loadRoutes duplicateRoutes) = [JStr ''A'', JStr ''B'']
   \<and> Map_get (loadRoutes duplicateRoutes) (JStr ''A'') =
       Some \<lparr> road_width_m = JNum (Fin 6), road_length_km = JNum (Fin 3),
              pss_tonnage_t = JUndefined \<rparr>
   \<and> Map_get (loadRoutes duplicateRoutes) (JStr ''A'') \<noteq>
       Some \<lparr> road_width_m = JNum (Fin 7), road_length_km = JNum (Fin 10),
              pss_tonnage_t = JUndefined \<rparr>"
  by code_simp

section \<open>Trip geometry: which pairs are kept\<close>

text \<open>
  C8. The specification drops a pair unless both components are numbers, and never
  puts a zero in the place of a component. The code passes each component through
  \<open>Number\<close>, and \<open>Number\<close> of \<open>null\<close>, of the empty text and of \<open>false\<close> is \<open>0\<close>, which is
  finite: a pair of such components is kept as the point \<open>(0, 0)\<close>, in a trip's
  \<open>coords\<close>, in its \<open>points\<close> and in a top-level point list, and the polyline is drawn
  through it. Where a point itself is \<open>null\<close>, reading its \<open>lat\<close> throws a \<open>TypeError\<close>,
  which ends the rendering, instead of the point being dropped.
\<close>

theorem null_components_kept_as_zero:
  "ToNumber JNull = Fin 0 \<and> ToNumber (JStr '''') = Fin 0 \<and> ToNumber (JBool False) = Fin 0
   \<and> normalizeLatLngsFromTrip nullCoordsTrip =
       Inr [(Fin 52, Fin (75 / 2)), (Fin 0, Fin 0), (Fin 0, Fin 0), (Fin (209 / 4), Fin (151 / 4))]
   \<and> renderTripsFromApiData nullCoordsTripList =
       Inr (Trips [[(Fin 52, Fin (75 / 2)), (Fin 0, Fin 0), (Fin 0, Fin 0),
                    (Fin (209 / 4), Fin (151 / 4))]] 1)
   \<and> normalizeLatLngsFromTrip nullLatLonPoints =
       Inr [(Fin 52, Fin (75 / 2)), (Fin 0, Fin 0), (Fin (209 / 4), Fin (151 / 4))]
   \<and> renderTripsFromApiData nullLatLonPoints =
       Inr (Points [(Fin 52, Fin (75 / 2)), (Fin 0, Fin 0), (Fin (209 / 4), Fin (151 / 4))] 3)
   \<and> normalizeLatLngsFromTrip nullPointTrip = Inl TypeError
   \<and> renderTripsFromApiData nullPointTrip = Inl TypeError"
  by code_simp

section \<open>Trip geometry: which shape is drawn\<close>





section \<open>Decimal digits\<close>

lemma digit_cases:
  "d < 10 \<Longrightarrow> d = 0 \<or> d = 1 \<or> d = 2 \<or> d = 3 \<or> d = 4 \<or> d = 5 \<or> d = 6 \<or> d = 7 \<or> d = 8 \<or> d = (9::nat)"
  by arith

lemma isDigit_digitChar: "d < 10 \<Longrightarrow> isDigit (digitChar d)"
  using digit_cases [of d] by (auto simp: isDigit_def digitChar_def)

lemma digitVal_digitChar: "d < 10 \<Longrightarrow> digitVal (digitChar d) = d"
  using digit_cases [of d] by (auto simp: digitVal_def digitChar_def)

lemma isDigit_not_special:
  "isDigit c \<Longrightarrow> c \<noteq> CHR ''.'' \<and> c \<noteq> CHR '','' \<and> c \<noteq> CHR ''-'' \<and> c \<noteq> CHR ''+''
     \<and> c \<noteq> CHR ''x'' \<and> c \<noteq> CHR ''X'' \<and> c \<noteq> CHR ''o'' \<and> c \<noteq> CHR ''O''
     \<and> c \<noteq> CHR ''b'' \<and> c \<noteq> CHR ''B'' \<and> c \<noteq> CHR ''I''"
  by (auto simp: isDigit_def)

lemma digits_all: "list_all isDigit (digits n)"
proof (induction n rule: digits.induct)
  case (1 n)
  show ?case
  proof (cases "n < 10")
    case True
    then show ?thesis by (subst digits.simps) (simp add: isDigit_digitChar)
  next
    case False
    then show ?thesis
      using 1 by (subst digits.simps) (simp add: isDigit_digitChar)
  qed
qed

lemma digitsVal_snoc: "digitsVal (ds @ [c]) = 10 * digitsVal ds + digitVal c"
  by (simp add: digitsVal_def)

lemma digitsVal_digits: "digitsVal (digits n) = n"
proof (induction n rule: digits.induct)
  case (1 n)
  show ?case
  proof (cases "n < 10")
    case True
    then show ?thesis
      by (subst digits.simps) (simp add: digitsVal_def digitVal_digitChar)
  next
    case False
    then have "digitsVal (digits (n div 10)) = n div 10"
      using 1 by simp
    then show ?thesis
      using False by (subst digits.simps) (simp add: digitsVal_snoc digitVal_digitChar)
  qed
qed

lemma digitsVal_append:
  "digitsVal (a @ b) = digitsVal a * 10 ^ length b + digitsVal b"
proof (induction b rule: rev_induct)
  case Nil
  show ?case by (simp add: digitsVal_def)
next
  case (snoc c b)
  have "digitsVal (a @ b @ [c]) = 10 * digitsVal (a @ b) + digitVal c"
    using digitsVal_snoc [of "a @ b" c] by simp
  then show ?case
    using snoc by (simp add: digitsVal_snoc algebra_simps)
qed

lemma digitsVal_zeros: "digitsVal (replicate k (CHR ''0'')) = 0"
proof (induction k)
  case 0
  show ?case by (simp add: digitsVal_def)
next
  case (Suc k)
  have "replicate (Suc k) (CHR ''0'') = replicate k (CHR ''0'') @ [CHR ''0'']"
    by (simp add: replicate_append_same)
  then show ?case
    using Suc by (simp only: digitsVal_snoc) (simp add: digitVal_def)
qed

lemma whiteSpace_heads:
  assumes "w \<in> set whiteSpaceChars"
  shows "w \<noteq> [] \<and> hd w \<in> set [CHR 0x09, CHR 0x0A, CHR 0x0B, CHR 0x0C, CHR 0x0D, CHR 0x20,
                                CHR 0xC2, CHR 0xE1, CHR 0xE2, CHR 0xE3, CHR 0xEF]"
  using assms unfolding whiteSpaceChars_def by auto

lemma plain_not_head:
  assumes "isDigit c \<or> c = CHR ''.'' \<or> c = CHR ''-''"
  shows "c \<notin> set [CHR 0x09, CHR 0x0A, CHR 0x0B, CHR 0x0C, CHR 0x0D, CHR 0x20,
                   CHR 0xC2, CHR 0xE1, CHR 0xE2, CHR 0xE3, CHR 0xEF]"
  using assms unfolding isDigit_def by auto

lemma whiteSpaceLength_plain:
  assumes "isDigit c \<or> c = CHR ''.'' \<or> c = CHR ''-''"
  shows "whiteSpaceLength (c # s) = 0"
proof -
  have "take (length w) (c # s) \<noteq> w" if h: "w \<in> set whiteSpaceChars" for w
  proof -
    obtain a w' where w: "w = a # w'"
      using whiteSpace_heads [OF h] by (cases w) auto
    have "a \<noteq> c"
      using whiteSpace_heads [OF h] plain_not_head [OF assms] unfolding w by auto
    then show ?thesis
      unfolding w by simp
  qed
  then have "find (\<lambda>w. take (length w) (c # s) = w) whiteSpaceChars = None"
    unfolding find_None_iff by blast
  then show ?thesis
    by (simp add: whiteSpaceLength_def)
qed

lemma trimStart_plain:
  assumes "isDigit c \<or> c = CHR ''.'' \<or> c = CHR ''-''"
  shows "trimStart (c # s) = c # s"
  using whiteSpaceLength_plain [OF assms] by simp

lemma trimEnd_plain:
  assumes "\<forall>c\<in>set s. isDigit c \<or> c = CHR ''.'' \<or> c = CHR ''-''"
  shows "trimEnd s = s"
  using assms by (induction s) (simp_all add: trimStart_plain del: trimStart.simps)

lemma trim_id:
  assumes "\<forall>c\<in>set s. isDigit c \<or> c = CHR ''.'' \<or> c = CHR ''-''"
  shows "trim s = s"
proof (cases s)
  case Nil
  then show ?thesis
    by (simp add: trim_def)
next
  case (Cons c r)
  then have "trimStart s = s"
    using assms trimStart_plain [of c r] by simp
  then show ?thesis
    using trimEnd_plain [OF assms] by (simp add: trim_def)
qed

lemma replaceFirst_at: "a \<notin> set s \<Longrightarrow> replaceFirst a b (s @ a # t) = s @ b # t"
  by (induction s) auto

lemma takeWhile_digits:
  "list_all isDigit a \<Longrightarrow> \<not> isDigit c \<Longrightarrow> takeWhile isDigit (a @ c # r) = a"
  by (induction a) simp_all

lemma dropWhile_digits:
  "list_all isDigit a \<Longrightarrow> \<not> isDigit c \<Longrightarrow> dropWhile isDigit (a @ c # r) = c # r"
  by (induction a) simp_all

lemma takeWhile_all: "list_all isDigit a \<Longrightarrow> takeWhile isDigit a = a"
  by (induction a) simp_all

lemma dropWhile_all: "list_all isDigit a \<Longrightarrow> dropWhile isDigit a = []"
  by (induction a) simp_all

section \<open>Reading back a formatted number\<close>

lemma ExponentPart_Nil: "ExponentPart [] = Some 0"
  by (simp add: ExponentPart_def)

lemma scale10_0: "scale10 m 0 = m"
  by (simp add: scale10_def)

lemma unsigned_decimal:
  assumes A: "list_all isDigit A" and ne: "A \<noteq> []" and B: "list_all isDigit B"
  shows "StrUnsignedDecimalLiteral (A @ CHR ''.'' # B)
         = toBinary64 (of_nat (digitsVal A) + of_nat (digitsVal B) / 10 ^ length B)"
proof -
  obtain a A' where a: "A = a # A'" using ne by (cases A) auto
  then have "isDigit a" using A by simp
  then have inf: "A @ CHR ''.'' # B \<noteq> ''Infinity''"
    using a isDigit_not_special [of a] by auto
  have nd: "\<not> isDigit (CHR ''.'')" by (simp add: isDigit_def)
  have t: "takeWhile isDigit (A @ CHR ''.'' # B) = A"
    and d: "dropWhile isDigit (A @ CHR ''.'' # B) = CHR ''.'' # B"
    using A nd by (simp_all add: takeWhile_digits dropWhile_digits)
  show ?thesis
    unfolding StrUnsignedDecimalLiteral_def Let_def t d
    using inf ne B by (simp add: takeWhile_all dropWhile_all ExponentPart_Nil scale10_0)
qed

lemma nondecimal_none:
  assumes A: "list_all isDigit A" and ne: "A \<noteq> []"
  shows "NonDecimalIntegerLiteral (A @ CHR ''.'' # B) = None"
proof -
  obtain a A' where a: "A = a # A'" using ne by (cases A) auto
  show ?thesis
  proof (cases A')
    case Nil
    then show ?thesis using a by (cases B) (simp_all add: NonDecimalIntegerLiteral_def)
  next
    case (Cons b A'')
    then have "isDigit b" using A a by simp
    then show ?thesis
      using a Cons isDigit_not_special [of b]
      by (cases "A'' @ CHR ''.'' # B") (simp_all add: NonDecimalIntegerLiteral_def)
  qed
qed

lemma nondecimal_minus: "NonDecimalIntegerLiteral (CHR ''-'' # s) = None"
  by (simp add: NonDecimalIntegerLiteral_def split: list.splits)

lemma StringToNumber_decimal:
  assumes A: "list_all isDigit A" and ne: "A \<noteq> []" and B: "list_all isDigit B" and neB: "B \<noteq> []"
  shows "StringToNumber (A @ CHR ''.'' # B)
         = toBinary64 (of_nat (digitsVal A) + of_nat (digitsVal B) / 10 ^ length B)"
    and "StringToNumber (CHR ''-'' # A @ CHR ''.'' # B)
         = js_neg (toBinary64 (of_nat (digitsVal A) + of_nat (digitsVal B) / 10 ^ length B))"
proof -
  obtain a A' where a: "A = a # A'" using ne by (cases A) auto
  then have da: "isDigit a" using A by simp
  let ?s = "A @ CHR ''.'' # B"
  have t1: "trim ?s = ?s"
    using A B by (intro trim_id) (auto simp: list_all_iff)
  have t2: "trim (CHR ''-'' # ?s) = CHR ''-'' # ?s"
    using A B by (intro trim_id) (auto simp: list_all_iff)
  have sd: "StrDecimalLiteral ?s = StrUnsignedDecimalLiteral ?s"
    using a isDigit_not_special [OF da] by (simp add: StrDecimalLiteral_def)
  show "StringToNumber ?s
        = toBinary64 (of_nat (digitsVal A) + of_nat (digitsVal B) / 10 ^ length B)"
    unfolding StringToNumber_def Let_def t1
    using nondecimal_none [OF A ne, of B] sd unsigned_decimal [OF A ne B] a by simp
  show "StringToNumber (CHR ''-'' # ?s)
        = js_neg (toBinary64 (of_nat (digitsVal A) + of_nat (digitsVal B) / 10 ^ length B))"
    unfolding StringToNumber_def Let_def t2
    using nondecimal_minus [of ?s] unsigned_decimal [OF A ne B]
    by (simp add: StrDecimalLiteral_def)
qed

lemma toFixed2_shape:
  assumes "\<bar>x\<bar> < 10 ^ 21"
  shows "\<exists>A B. list_all isDigit A \<and> A \<noteq> [] \<and> list_all isDigit B \<and> length B = 2
           \<and> digitsVal A * 100 + digitsVal B = nat \<lfloor>\<bar>x\<bar> * 100 + 1 / 2\<rfloor>
           \<and> toFixed numToString (Fin x) 2 = (if x < 0 then ''-'' else '''') @ A @ CHR ''.'' # B"
proof -
  define n where "n = nat \<lfloor>\<bar>x\<bar> * 100 + 1 / 2\<rfloor>"
  define z where
    "z = (if length (digits n) \<le> 2 then replicate (2 + 1 - length (digits n)) (CHR ''0'') @ digits n
          else digits n)"
  define A where "A = take (length z - 2) z"
  define B where "B = drop (length z - 2) z"
  have len: "3 \<le> length z"
    by (auto simp: z_def)
  have zero: "isDigit (CHR ''0'')"
    by (simp add: isDigit_def)
  have all: "list_all isDigit z"
    using digits_all [of n] zero by (simp add: list_all_iff z_def)
  have val: "digitsVal z = n"
    by (simp add: digitsVal_append digitsVal_zeros digitsVal_digits z_def)
  have AB: "A @ B = z"
    by (simp add: A_def B_def)
  have lB: "length B = 2"
    using len by (simp add: B_def)
  have dA: "list_all isDigit A" and dB: "list_all isDigit B"
    using all unfolding AB [symmetric] by simp_all
  have neA: "A \<noteq> []"
    using len by (auto simp: A_def)
  have "digitsVal (A @ B) = digitsVal A * 10 ^ length B + digitsVal B"
    by (rule digitsVal_append)
  then have sum: "digitsVal A * 100 + digitsVal B = n"
    unfolding AB lB val by simp
  have tf: "toFixed numToString (Fin x) 2 = (if x < 0 then ''-'' else '''') @ A @ CHR ''.'' # B"
    using assms by (simp add: toFixed_def Let_def A_def B_def z_def n_def)
  show ?thesis
    using dA neA dB lB sum tf unfolding n_def by blast
qed

lemma toBinary64_hundredths:
  assumes "n < 10 ^ 24"
  shows "toBinary64 (of_nat n / 100) = Fin (binary64 (of_nat n / 100))"
proof -
  have "(of_nat n :: rat) < of_nat (10 ^ 24)"
    using assms by (simp only: of_nat_less_iff)
  then have hi: "(of_nat n :: rat) / 100 < 2 ^ 80"
    by simp
  have "(2::rat) powi 80 \<le> 2 powi 970"
    by (rule pow2_mono) simp
  then have "(2::rat) ^ 80 \<le> 2 powi 970"
    by simp
  moreover have "2 * 2 powi 970 \<le> 2 ^ 54 * (2::rat) powi 970"
    by simp
  ultimately have "\<bar>of_nat n / 100 :: rat\<bar> < 2 powi 1024 - 2 powi 970"
    using hi unfolding pow2_970 by simp
  then show ?thesis
    by (rule toBinary64_Fin)
qed

lemma fmt2_Fin:
  "fmt2 numToString (JNum (Fin x)) = replaceFirst (CHR ''.'') (CHR '','') (toFixed numToString (Fin x) 2)"
  by (simp add: fmt2_def)

lemma digits_no_mark:
  assumes "list_all isDigit A"
  shows "CHR ''.'' \<notin> set A" and "CHR '','' \<notin> set A"
  using assms isDigit_not_special by (auto simp: list_all_iff)

lemma round2_hundredths: "round2 x = (if x < 0 then - 1 else 1) * (of_nat (nat \<lfloor>\<bar>x\<bar> * 100 + 1 / 2\<rfloor>) / 100)"
proof -
  have "0 \<le> \<lfloor>\<bar>x\<bar> * 100 + 1 / 2\<rfloor>"
    by simp
  then have "(of_nat (nat \<lfloor>\<bar>x\<bar> * 100 + 1 / 2\<rfloor>) :: rat) = of_int \<lfloor>\<bar>x\<bar> * 100 + 1 / 2\<rfloor>"
    by (simp only: of_nat_nat)
  then show ?thesis
    by (simp add: round2_def)
qed

lemma hundredths_bound:
  assumes "\<bar>x\<bar> < 10 ^ 21"
  shows "nat \<lfloor>\<bar>x\<bar> * 100 + 1 / 2\<rfloor> < 10 ^ 24"
proof -
  have "\<bar>x\<bar> * 100 + 1 / 2 < 10 ^ 24"
    using assms by simp
  then have "\<lfloor>\<bar>x\<bar> * 100 + 1 / 2\<rfloor> < 10 ^ 24"
    by (simp add: floor_less_iff)
  then show ?thesis
    by (simp add: nat_less_iff)
qed

text \<open>
  Below \<open>10^21\<close> the text of a number, read back, is the binary64 number nearest to the
  number rounded to two decimals.
\<close>

lemma toBinary64_round2:
  assumes "\<bar>x\<bar> < 10 ^ 21"
  shows "toBinary64 (round2 x) = Fin (binary64 (round2 x))"
proof -
  define n where "n = nat \<lfloor>\<bar>x\<bar> * 100 + 1 / 2\<rfloor>"
  have h: "toBinary64 (of_nat n / 100) = Fin (binary64 (of_nat n / 100))"
    unfolding n_def by (rule toBinary64_hundredths [OF hundredths_bound [OF assms]])
  show ?thesis
  proof (cases "x < 0")
    case True
    then have r: "round2 x = - (of_nat n / 100)"
      unfolding round2_hundredths n_def by simp
    have "js_neg (toBinary64 (of_nat n / 100)) = js_neg (Fin (binary64 (of_nat n / 100)))"
      by (simp only: h)
    then show ?thesis
      unfolding r js_neg_toBinary64 binary64_minus by simp
  next
    case False
    then have r: "round2 x = of_nat n / 100"
      unfolding round2_hundredths n_def by simp
    show ?thesis
      unfolding r by (rule h)
  qed
qed

lemma kmText_roundtrip:
  assumes "\<bar>x\<bar> < 10 ^ 21"
  shows "StringToNumber (replaceFirst (CHR '','') (CHR ''.'') (fmt2 numToString (JNum (Fin x))))
         = Fin (binary64 (round2 x))"
proof -
  define n where "n = nat \<lfloor>\<bar>x\<bar> * 100 + 1 / 2\<rfloor>"
  obtain A B where dA: "list_all isDigit A" and neA: "A \<noteq> []"
    and dB: "list_all isDigit B" and lB: "length B = 2"
    and sum: "digitsVal A * 100 + digitsVal B = n"
    and tf: "toFixed numToString (Fin x) 2 = (if x < 0 then ''-'' else '''') @ A @ CHR ''.'' # B"
    using toFixed2_shape [OF assms, of numToString] unfolding n_def by blast
  define s where "s = (if x < 0 then ''-'' else '''')"
  have sA: "CHR ''.'' \<notin> set (s @ A)" "CHR '','' \<notin> set (s @ A)"
    using digits_no_mark [OF dA] by (auto simp: s_def)
  have "fmt2 numToString (JNum (Fin x)) = (s @ A) @ CHR '','' # B"
    unfolding fmt2_Fin tf using replaceFirst_at [OF sA(1), of "CHR '',''" B]
    by (simp add: s_def)
  then have cell: "replaceFirst (CHR '','') (CHR ''.'') (fmt2 numToString (JNum (Fin x)))
                   = s @ A @ CHR ''.'' # B"
    using replaceFirst_at [OF sA(2), of "CHR ''.''" B] by simp
  have neB: "B \<noteq> []" using lB by auto
  have "(of_nat (digitsVal A * 100 + digitsVal B) :: rat) = of_nat n"
    using sum by simp
  then have v: "(of_nat (digitsVal A) :: rat) + of_nat (digitsVal B) / 10 ^ length B = of_nat n / 100"
    unfolding lB by (simp add: field_simps)
  show ?thesis
  proof (cases "x < 0")
    case True
    then have r: "round2 x = - (of_nat n / 100)"
      unfolding round2_hundredths n_def by simp
    have "StringToNumber (s @ A @ CHR ''.'' # B) = js_neg (toBinary64 (of_nat n / 100))"
      using StringToNumber_decimal(2) [OF dA neA dB neB] v True by (simp add: s_def)
    then have "StringToNumber (s @ A @ CHR ''.'' # B) = toBinary64 (round2 x)"
      unfolding js_neg_toBinary64 r [symmetric] .
    then show ?thesis
      unfolding cell by (simp only: toBinary64_round2 [OF assms])
  next
    case False
    then have r: "round2 x = of_nat n / 100"
      unfolding round2_hundredths n_def by simp
    have "StringToNumber (s @ A @ CHR ''.'' # B) = toBinary64 (of_nat n / 100)"
      using StringToNumber_decimal(1) [OF dA neA dB neB] v False by (simp add: s_def)
    then have "StringToNumber (s @ A @ CHR ''.'' # B) = toBinary64 (round2 x)"
      unfolding r [symmetric] .
    then show ?thesis
      unfolding cell by (simp only: toBinary64_round2 [OF assms])
  qed
qed

lemma StringToNumber_empty: "StringToNumber '''' = Fin 0"
  by (simp add: StringToNumber_def trim_def)

lemma rowKm_not_Untouched:
  assumes "tripKm r = Some kt" and "tripTons r = Some tv"
  shows "rowKm r \<noteq> Untouched"
proof -
  obtain t where t: "numOr0 (JStr tv) = Fin t" using numOr0_Fin by blast
  show ?thesis
    unfolding rowKm_cases [OF assms] using t by simp
qed

text \<open>The distance of a row is a finite number.\<close>

lemma rowKm_finite:
  assumes "rowKm r = Km k"
  shows "\<exists>x. k = Fin x"
proof -
  obtain kt tv where c: "tripKm r = Some kt" "tripTons r = Some tv"
    using assms by (auto simp: rowKm_def split: option.splits)
  obtain t where t: "numOr0 (JStr tv) = Fin t" using numOr0_Fin by blast
  have b: "toBinary64 t = Fin t"
    using t by (rule numOr0_representable)
  have "k = rowMaxLen r \<and> Number_isFinite (rowMaxLen r) \<or> (\<exists>q. k = Fin q)"
  proof (cases "0 < t")
    case True
    obtain q where "js_div (Fin t) (coeffByWidth (JNum (getRowWidth r))) = Fin q"
      using rowKm_positive_finite [OF b True] by blast
    then show ?thesis
      using assms [symmetric] t unfolding rowKm_cases [OF c] by (simp split: if_splits)
  next
    case False
    then show ?thesis
      using assms t unfolding rowKm_cases [OF c] by (simp split: if_splits)
  qed
  then show ?thesis
    by (cases k) auto
qed

lemma allocated_Some: "allocatedDistanceKm r = Some x \<longleftrightarrow> rowKm r = Km (Fin x)"
  by (auto simp: allocatedDistanceKm_def split: km_result.splits jsnum.splits)

lemma allocated_None_cases:
  "allocatedDistanceKm r = None \<Longrightarrow> rowKm r = Untouched \<or> rowKm r = Blank"
  using rowKm_finite [of r]
  by (cases "rowKm r") (auto simp: allocatedDistanceKm_def split: jsnum.splits)

lemma cell_defined:
  assumes "allocatedDistanceKm r = Some x" and "\<bar>x\<bar> < 10 ^ 21"
  shows "tripKm (recalcRowKm numToString r) = Some (fmt2 numToString (JNum (Fin x)))"
    and "kmCellNumber (recalcRowKm numToString r) = Fin (binary64 (round2 x))"
proof -
  have k: "rowKm r = Km (Fin x)" using assms(1) by (simp add: allocated_Some)
  then show "tripKm (recalcRowKm numToString r) = Some (fmt2 numToString (JNum (Fin x)))"
    by (simp add: recalcRowKm_def)
  then show "kmCellNumber (recalcRowKm numToString r) = Fin (binary64 (round2 x))"
    using kmText_roundtrip [OF assms(2)] by (simp add: kmCellNumber_def)
qed

lemma cell_undefined:
  assumes "allocatedDistanceKm r = None" and "tripTons r \<noteq> None"
  shows "kmCellNumber (recalcRowKm numToString r) = Fin 0"
    and "tripKm (recalcRowKm numToString r) = (if tripKm r = None then None else Some '''')"
proof -
  consider "rowKm r = Untouched" | "rowKm r = Blank"
    using allocated_None_cases [OF assms(1)] by blast
  then have "kmCellNumber (recalcRowKm numToString r) = Fin 0
             \<and> tripKm (recalcRowKm numToString r) = (if tripKm r = None then None else Some '''')"
  proof cases
    case 1
    then have "tripKm r = None"
      using assms(2) rowKm_not_Untouched [of r] by (cases "tripKm r") auto
    then show ?thesis
      using 1 by (simp add: recalcRowKm_def kmCellNumber_def StringToNumber_empty)
  next
    case 2
    then have "tripKm r \<noteq> None"
      by (auto simp: rowKm_def split: option.splits)
    then show ?thesis
      using 2 by (simp add: recalcRowKm_def kmCellNumber_def StringToNumber_empty)
  qed
  then show "kmCellNumber (recalcRowKm numToString r) = Fin 0"
    and "tripKm (recalcRowKm numToString r) = (if tripKm r = None then None else Some '''')"
    by simp_all
qed

lemma kmSum_foldl:
  assumes "\<forall>r\<in>set rows. tripTons r \<noteq> None"
    and "\<forall>r\<in>set rows. \<forall>x. allocatedDistanceKm r = Some x \<longrightarrow> \<bar>x\<bar> < 10 ^ 21"
  shows "foldl (\<lambda>s r. let n = kmCellNumber r in if Number_isFinite n then js_add s n else s)
           a (map (recalcRowKm numToString) rows)
         = foldl (\<lambda>s x. js_add s (Fin x)) a
             (map (\<lambda>x. binary64 (round2 x)) (List.map_filter allocatedDistanceKm rows))"
  using assms
proof (induction rows arbitrary: a)
  case Nil
  show ?case by (simp add: List.map_filter_simps)
next
  case (Cons r rows)
  show ?case
  proof (cases "allocatedDistanceKm r")
    case None
    then have "kmCellNumber (recalcRowKm numToString r) = Fin 0"
      using Cons.prems(1) cell_undefined(1) by simp
    then show ?thesis
      using Cons.IH [of a] Cons.prems None by (simp add: List.map_filter_simps js_add_zero)
  next
    case (Some x)
    then have "kmCellNumber (recalcRowKm numToString r) = Fin (binary64 (round2 x))"
      using Cons.prems(2) cell_defined(2) by simp
    then show ?thesis
      using Cons.IH [of "js_add a (Fin (binary64 (round2 x)))"] Cons.prems Some
      by (simp add: List.map_filter_simps)
  qed
qed

section \<open>Totals: the distance sum\<close>

text \<open>
  C7. Once \<open>recalcRowKm\<close> has written every row's distance cell, the distance sum of
  \<open>recalcTotals\<close> is the sum of the rounded distances of the rows that have a
  distance: each such row adds the number its cell shows, which is its distance rounded
  to two decimals, never the unrounded value; a row without a distance has an empty
  cell and adds nothing. The number that a cell shows enters the sum as the binary64
  number nearest to it, and the numbers are added from the first row to the last as
  binary64 numbers. The rows have a tonnage input, and the distances are below
  \<open>10^21\<close>, where the cell is written in plain decimal notation.
\<close>

theorem distance_sum_of_rounded_cells:
  assumes "\<forall>r\<in>set rows. tripTons r \<noteq> None"
    and "\<forall>r\<in>set rows. \<forall>x. allocatedDistanceKm r = Some x \<longrightarrow> \<bar>x\<bar> < 10 ^ 21"
  shows "kmSum (map (recalcRowKm numToString) rows)
           = js_sum (map (\<lambda>x. binary64 (round2 x)) (List.map_filter allocatedDistanceKm rows))
       \<and> total_km_sum_cell (recalcTotals numToString (map (recalcRowKm numToString) rows) oidValue)
           = fmt2 numToString
               (JNum (js_sum (map (\<lambda>x. binary64 (round2 x))
                                 (List.map_filter allocatedDistanceKm rows))))
       \<and> (\<forall>r\<in>set rows. \<forall>x. allocatedDistanceKm r = Some x \<longrightarrow>
             tripKm (recalcRowKm numToString r) = Some (fmt2 numToString (JNum (Fin x)))
             \<and> kmCellNumber (recalcRowKm numToString r) = Fin (binary64 (round2 x)))
       \<and> (\<forall>r\<in>set rows. allocatedDistanceKm r = None \<longrightarrow>
             kmCellNumber (recalcRowKm numToString r) = Fin 0
             \<and> tripKm (recalcRowKm numToString r) = (if tripKm r = None then None else Some ''''))"
proof -
  have s: "kmSum (map (recalcRowKm numToString) rows)
           = js_sum (map (\<lambda>x. binary64 (round2 x)) (List.map_filter allocatedDistanceKm rows))"
    using kmSum_foldl [OF assms, of "Fin 0" numToString] by (simp add: kmSum_def js_sum_def)
  have t: "total_km_sum_cell (recalcTotals numToString (map (recalcRowKm numToString) rows) oidValue)
           = fmt2 numToString
               (JNum (js_sum (map (\<lambda>x. binary64 (round2 x))
                                 (List.map_filter allocatedDistanceKm rows))))"
    unfolding s [symmetric] by (simp add: recalcTotals_def Let_def)
  have d: "\<forall>r\<in>set rows. \<forall>x. allocatedDistanceKm r = Some x \<longrightarrow>
             tripKm (recalcRowKm numToString r) = Some (fmt2 numToString (JNum (Fin x)))
             \<and> kmCellNumber (recalcRowKm numToString r) = Fin (binary64 (round2 x))"
    using assms(2) cell_defined by blast
  have u: "\<forall>r\<in>set rows. allocatedDistanceKm r = None \<longrightarrow>
             kmCellNumber (recalcRowKm numToString r) = Fin 0
             \<and> tripKm (recalcRowKm numToString r) = (if tripKm r = None then None else Some '''')"
    using assms(1) cell_undefined by blast
  show ?thesis
    using s t d u by blast
qed

theorem distance_sum_of_rounded_cells_witness:
  "List.map_filter allocatedDistanceKm fourRows
     = [6433713753386423 / 9007199254740992, 6433713753386423 / 9007199254740992,
        1885882343961395 / 1125899906842624]
   \<and> map (\<lambda>r. tripKm (recalcRowKm stubNumToString r)) fourRows
       = [Some ''0,71'', Some ''0,71'', Some '''', Some ''1,67'']
   \<and> map (\<lambda>x. binary64 (round2 x)) (List.map_filter allocatedDistanceKm fourRows)
       = [799388933858263 / 1125899906842624, 799388933858263 / 1125899906842624,
          940126422213591 / 562949953421312]
   \<and> kmSum (map (recalcRowKm stubNumToString) fourRows) = Fin (869757678035927 / 281474976710656)
   \<and> total_km_sum_cell (recalcTotals stubNumToString (map (recalcRowKm stubNumToString) fourRows) '''')
       = ''3,09''
   \<and> fmt2 stubNumToString (JNum (js_sum (List.map_filter allocatedDistanceKm fourRows))) = ''3,10''"
proof -
  have a: "allocatedDistanceKm (exampleRow\<lparr>tripTons := Some ''1''\<rparr>)
             = Some (6433713753386423 / 9007199254740992)"
    "allocatedDistanceKm (exampleRow\<lparr>routeSel := Some ''''\<rparr>) = None"
    "allocatedDistanceKm (exampleRow\<lparr>tripTons := Some ''2.01'', jsWidth := Some ''6,0''\<rparr>)
             = Some (1885882343961395 / 1125899906842624)"
    by code_simp+
  have m: "List.map_filter allocatedDistanceKm fourRows
           = [6433713753386423 / 9007199254740992, 6433713753386423 / 9007199254740992,
              1885882343961395 / 1125899906842624]"
    using a by (simp add: fourRows_def List.map_filter_simps)
  have h1: "\<forall>r\<in>set fourRows. tripTons r \<noteq> None"
    by (simp add: fourRows_def exampleRow_def)
  have h2: "\<forall>r\<in>set fourRows. \<forall>x. allocatedDistanceKm r = Some x \<longrightarrow> \<bar>x\<bar> < 10 ^ 21"
    using a by (auto simp: fourRows_def)
  have r: "binary64 (round2 (6433713753386423 / 9007199254740992))
             = 799388933858263 / 1125899906842624"
    "binary64 (round2 (1885882343961395 / 1125899906842624))
             = 940126422213591 / 562949953421312"
    by code_simp+
  have j: "js_sum [799388933858263 / 1125899906842624, 799388933858263 / 1125899906842624,
                   940126422213591 / 562949953421312]
           = Fin (869757678035927 / 281474976710656)"
    by code_simp
  have c: "map (\<lambda>r. tripKm (recalcRowKm stubNumToString r)) fourRows
           = [Some ''0,71'', Some ''0,71'', Some '''', Some ''1,67'']"
    by code_simp
  have f: "fmt2 stubNumToString (JNum (Fin (869757678035927 / 281474976710656))) = ''3,09''"
    by code_simp
  have g: "fmt2 stubNumToString
             (JNum (js_sum [6433713753386423 / 9007199254740992,
                            6433713753386423 / 9007199254740992,
                            1885882343961395 / 1125899906842624])) = ''3,10''"
    by code_simp
  have "kmSum (map (recalcRowKm stubNumToString) fourRows) = Fin (869757678035927 / 281474976710656)
        \<and> total_km_sum_cell
              (recalcTotals stubNumToString (map (recalcRowKm stubNumToString) fourRows) '''')
            = ''3,09''"
    using distance_sum_of_rounded_cells [OF h1 h2, of stubNumToString "''''"]
    unfolding m by (simp add: r j f)
  then show ?thesis
    using m c r g by simp
qed

end
